theory Spec2Isabelle
  imports Complex_Main "HOL-Library.Word"
begin

unbundle bit_operations_syntax

section \<open>AudioFFT: data model\<close>

text \<open>
  The embedding follows \<^verbatim>\<open>src/AudioLibs/AudioFFT.h\<close>.

  Conventions of the model.
  \<^item> C++ \<^verbatim>\<open>int\<close> is \<^typ>\<open>int\<close>. The counters of the class are bounded by the window
    length (a \<^verbatim>\<open>uint16_t\<close>) and by the number of samples of one buffer, so no
    property below depends on signed overflow; the conversion to \<^verbatim>\<open>uint16_t\<close> in the
    call of \<^verbatim>\<open>isPowerOfTwo\<close> is written out with a 16 bit word, and C++ integer
    division (truncation towards zero) is \<open>c_div\<close>.
  \<^item> \<^verbatim>\<open>float\<close> is \<^typ>\<open>real\<close>: the model compares magnitudes with \<open><\<close> as the code
    does and says nothing about rounding or NaN. A frequency is a \<^typ>\<open>real option\<close>,
    where \<open>None\<close> stands for the non-finite value that the division by a window
    length of 0 produces.
  \<^item> Methods whose names clash with an Isabelle keyword or with a field of a record
    carry the suffix \<open>_fft\<close> (methods of \<^verbatim>\<open>AudioFFTBase\<close>) or \<open>_drv\<close> (virtual
    methods of \<^verbatim>\<open>FFTDriver\<close>).
\<close>

definition c_div :: "int \<Rightarrow> int \<Rightarrow> int" where
  "c_div a b = sgn a * sgn b * (\<bar>a\<bar> div \<bar>b\<bar>)"

text \<open>\<^verbatim>\<open>struct AudioFFTResult\<close>.\<close>

record AudioFFTResult =
  bin :: int
  magnitude :: real
  frequency :: "real option"

text \<open>
  \<^verbatim>\<open>struct AudioFFTConfig : AudioBaseInfo\<close>. Modelled from the spec: \<^verbatim>\<open>AudioBaseInfo\<close>
  is declared outside the given sources; its three fields \<open>sample_rate\<close>, \<open>channels\<close> and
  \<open>bits_per_sample\<close> are the integers that the constructor of \<^verbatim>\<open>AudioFFTConfig\<close>
  assigns. The callback is a function pointer: \<open>None\<close> is \<^verbatim>\<open>nullptr\<close>, \<open>Some c\<close> the
  address \<open>c\<close> of a function, whose behaviour belongs to the environment below.
\<close>

record 'c AudioFFTConfig =
  sample_rate :: int
  channels :: int
  bits_per_sample :: int
  callback :: "'c option"
  channel_used :: "8 word"

definition defaultConfig :: "'c AudioFFTConfig" where
  "defaultConfig =
     \<lparr>sample_rate = 44100, channels = 2, bits_per_sample = 16, callback = None,
      channel_used = 0\<rparr>"

text \<open>
  \<^verbatim>\<open>class FFTDriver\<close> is abstract: a driver is the table of its six virtual methods,
  acting on the state \<open>'w\<close> of everything outside the \<^verbatim>\<open>AudioFFTBase\<close> object (the
  driver object and the board it runs on).
\<close>

record 'w FFTDriver =
  begin_drv :: "int \<Rightarrow> 'w \<Rightarrow> 'w"
  end_drv :: "'w \<Rightarrow> 'w"
  setValue :: "int \<Rightarrow> int \<Rightarrow> 'w \<Rightarrow> 'w"
  fft_drv :: "'w \<Rightarrow> 'w"
  magnitude_drv :: "int \<Rightarrow> 'w \<Rightarrow> real"
  isValid :: "'w \<Rightarrow> bool"

text \<open>
  The members of \<^verbatim>\<open>class AudioFFTBase\<close>. \<open>p_driver\<close> holds the state reached through
  the pointer.
\<close>

record ('c, 'w) AudioFFTBase =
  p_driver :: 'w
  len :: int
  current_pos :: int
  cfg :: "'c AudioFFTConfig"
  timestamp :: nat

text \<open>
  What the class calls and does not define: the driver behind \<open>p_driver\<close>, the clock
  \<^verbatim>\<open>millis()\<close>, and the code behind a callback pointer, which receives the object by
  reference and returns it as it left it.
\<close>

record ('c, 'w) environment =
  driver :: "'w FFTDriver"
  millis :: "'w \<Rightarrow> nat"
  call :: "'c \<Rightarrow> ('c, 'w) AudioFFTBase \<Rightarrow> ('c, 'w) AudioFFTBase"

section \<open>Configuration and life cycle\<close>

text \<open>
  \<^verbatim>\<open>bool isPowerOfTwo(uint16_t x) { return (x & (x - 1)) == 0; }\<close>
  The operands are promoted to \<^verbatim>\<open>int\<close> before the subtraction.
\<close>

definition isPowerOfTwo :: "16 word \<Rightarrow> bool" where
  "isPowerOfTwo x = ((uint x AND (uint x - 1)) = 0)"

text \<open>The constructor \<^verbatim>\<open>AudioFFTBase(uint16_t fft_len, FFTDriver* driver)\<close>.\<close>

definition new_AudioFFTBase :: "16 word \<Rightarrow> 'w \<Rightarrow> ('c, 'w) AudioFFTBase" where
  "new_AudioFFTBase fft_len drv =
     \<lparr>p_driver = drv, len = uint fft_len, current_pos = 0, cfg = defaultConfig,
      timestamp = 0\<rparr>"

text \<open>\<^verbatim>\<open>bool begin(AudioFFTConfig info)\<close>: the new state and the returned flag.\<close>

definition begin_fft ::
  "('c, 'w) environment \<Rightarrow> ('c, 'w) AudioFFTBase \<Rightarrow> 'c AudioFFTConfig
     \<Rightarrow> ('c, 'w) AudioFFTBase \<times> bool" where
  "begin_fft E s info =
     (let s1 = s\<lparr>cfg := info\<rparr> in
      if \<not> isPowerOfTwo (word_of_int (len s1)) then (s1, False)
      else
        let s2 = s1\<lparr>p_driver := begin_drv (driver E) (len s1) (p_driver s1)\<rparr>;
            s3 = s2\<lparr>current_pos := 0\<rparr>
        in (s3, isValid (driver E) (p_driver s3)))"

text \<open>\<^verbatim>\<open>void setAudioInfo(AudioBaseInfo info)\<close>, given the three fields of \<open>info\<close>.\<close>

definition setAudioInfo ::
  "('c, 'w) environment \<Rightarrow> ('c, 'w) AudioFFTBase \<Rightarrow> int \<Rightarrow> int \<Rightarrow> int
     \<Rightarrow> ('c, 'w) AudioFFTBase" where
  "setAudioInfo E s info_bits info_rate info_channels =
     (let c = (cfg s)\<lparr>bits_per_sample := info_bits, sample_rate := info_rate,
                      channels := info_channels\<rparr>;
          s1 = s\<lparr>cfg := c\<rparr>
      in fst (begin_fft E s1 (cfg s1)))"

text \<open>\<^verbatim>\<open>void end()\<close>.\<close>

definition end_fft :: "('c, 'w) environment \<Rightarrow> ('c, 'w) AudioFFTBase \<Rightarrow> ('c, 'w) AudioFFTBase" where
  "end_fft E s = s\<lparr>p_driver := end_drv (driver E) (p_driver s)\<rparr>"

text \<open>\<^verbatim>\<open>int size()\<close> and \<^verbatim>\<open>unsigned long resultTime()\<close>.\<close>

definition size_fft :: "('c, 'w) AudioFFTBase \<Rightarrow> int" where
  "size_fft s = len s"

definition resultTime :: "('c, 'w) AudioFFTBase \<Rightarrow> nat" where
  "resultTime s = timestamp s"

text \<open>\<^verbatim>\<open>int availableForWrite()\<close>.\<close>

definition availableForWrite :: "('c, 'w) AudioFFTBase \<Rightarrow> int" where
  "availableForWrite s = c_div (bits_per_sample (cfg s)) 8 * len s"

section \<open>Buffering and the transform trigger\<close>

text \<open>
  \<^verbatim>\<open>void fft()\<close>: run the transform, reset the cursor, read the clock, then call the
  callback, if there is one, on the object.
\<close>

definition fft :: "('c, 'w) environment \<Rightarrow> ('c, 'w) AudioFFTBase \<Rightarrow> ('c, 'w) AudioFFTBase" where
  "fft E s =
     (let s1 = s\<lparr>p_driver := fft_drv (driver E) (p_driver s)\<rparr>;
          s2 = s1\<lparr>current_pos := 0\<rparr>;
          s3 = s2\<lparr>timestamp := millis E (p_driver s2)\<rparr>
      in case callback (cfg s3) of None \<Rightarrow> s3 | Some c \<Rightarrow> call E c s3)"

text \<open>
  The template parameter \<open>T\<close> of \<^verbatim>\<open>processSamples<T>\<close>. Modelled from the spec:
  \<^verbatim>\<open>int24_t\<close> is declared outside the given sources; it is the packed signed 24 bit
  sample of three bytes.
\<close>

datatype sample_type = Int16 | Int24 | Int32

fun sizeof :: "sample_type \<Rightarrow> nat" where
  "sizeof Int16 = 2"
| "sizeof Int24 = 3"
| "sizeof Int32 = 4"

text \<open>The signed value of the bytes of one sample, least significant byte first.\<close>

definition le_signed :: "8 word list \<Rightarrow> int" where
  "le_signed bs =
     (let u = foldr (\<lambda>b acc. uint b + 256 * acc) bs 0 in
      if 2 ^ (8 * length bs - 1) \<le> u then u - 2 ^ (8 * length bs) else u)"

text \<open>
  \<^verbatim>\<open>T *dataT = (T*) data\<close>: the buffer read as an array of \<open>T\<close>. An index whose sample
  does not lie inside the \<open>byteCount\<close> bytes of the buffer has no value: the C++ read
  there is undefined.
\<close>

definition dataT :: "sample_type \<Rightarrow> 8 word list \<Rightarrow> int \<Rightarrow> int option" where
  "dataT T data idx =
     (if 0 \<le> idx \<and> (nat idx + 1) * sizeof T \<le> length data
      then Some (le_signed (take (sizeof T) (drop (nat idx * sizeof T) data)))
      else None)"

datatype error = OutOfBounds

text \<open>
  The body of the loop of \<^verbatim>\<open>processSamples\<close> for the sample \<open>v\<close> read at
  \<open>dataT[j + cfg.channel_used]\<close>.
\<close>

definition addSample ::
  "('c, 'w) environment \<Rightarrow> int \<Rightarrow> ('c, 'w) AudioFFTBase \<Rightarrow> ('c, 'w) AudioFFTBase" where
  "addSample E v s =
     (let s1 = s\<lparr>p_driver := setValue (driver E) (current_pos s) v (p_driver s)\<rparr>;
          s2 = s1\<lparr>current_pos := current_pos s1 + 1\<rparr>
      in if len s2 \<le> current_pos s2 then fft E s2 else s2)"

text \<open>
  \<^verbatim>\<open>for (int j=0; j<samples; j+=cfg.channels)\<close>. The step \<open>cfg.channels\<close> is read after
  the body; with a step of 0 the loop does not end, so the loop is a partial function
  and \<open>None\<close> is a call that does not return.
\<close>

partial_function (option) processSamples_loop ::
  "('c, 'w) environment \<Rightarrow> (int \<Rightarrow> int option) \<Rightarrow> int \<Rightarrow> int \<Rightarrow> ('c, 'w) AudioFFTBase
     \<Rightarrow> (error + ('c, 'w) AudioFFTBase) option" where
  "processSamples_loop E dT samples j s =
     (if j < samples then
        (case dT (j + uint (channel_used (cfg s))) of
           None \<Rightarrow> Some (Inl OutOfBounds)
         | Some v \<Rightarrow>
             (let s1 = addSample E v s
              in processSamples_loop E dT samples (j + channels (cfg s1)) s1))
      else Some (Inr s))"

declare processSamples_loop.simps [code]

definition processSamples ::
  "('c, 'w) environment \<Rightarrow> sample_type \<Rightarrow> ('c, 'w) AudioFFTBase \<Rightarrow> 8 word list
     \<Rightarrow> (error + ('c, 'w) AudioFFTBase) option" where
  "processSamples E T s data =
     (let samples = int (length data div sizeof T)
      in processSamples_loop E (dataT T data) samples 0 s)"

text \<open>
  \<^verbatim>\<open>size_t write(const uint8_t* data, size_t len)\<close>; the byte count is the length of
  \<open>data\<close>. A call that returns gives the new state and the returned count, or the
  error of an undefined read.
\<close>

definition write_fft ::
  "('c, 'w) environment \<Rightarrow> ('c, 'w) AudioFFTBase \<Rightarrow> 8 word list
     \<Rightarrow> (error + ('c, 'w) AudioFFTBase \<times> nat) option" where
  "write_fft E s data =
     (if isValid (driver E) (p_driver s) then
        (let result = length data;
             r = (if bits_per_sample (cfg s) = 16 then processSamples E Int16 s data
                  else if bits_per_sample (cfg s) = 24 then processSamples E Int24 s data
                  else if bits_per_sample (cfg s) = 32 then processSamples E Int32 s data
                  else Some (Inr s))
         in map_option (map_sum id (\<lambda>s'. (s', result))) r)
      else Some (Inr (s, 0)))"

section \<open>Result extraction\<close>

text \<open>\<^verbatim>\<open>float magnitude(int idx)\<close> and \<^verbatim>\<open>float frequency(int bin)\<close>.\<close>

definition magnitude_fft :: "('c, 'w) environment \<Rightarrow> ('c, 'w) AudioFFTBase \<Rightarrow> int \<Rightarrow> real" where
  "magnitude_fft E s idx = magnitude_drv (driver E) idx (p_driver s)"

definition frequency_fft :: "('c, 'w) AudioFFTBase \<Rightarrow> int \<Rightarrow> real option" where
  "frequency_fft s b =
     (if len s = 0 then None
      else Some (real_of_int b * real_of_int (sample_rate (cfg s)) / real_of_int (len s)))"

text \<open>
  \<^verbatim>\<open>AudioFFTResult result()\<close>. The loop \<^verbatim>\<open>for (int j=1;j<len/2;j++)\<close> carries the best
  result so far.
\<close>

function result_loop ::
  "('c, 'w) environment \<Rightarrow> ('c, 'w) AudioFFTBase \<Rightarrow> int \<Rightarrow> AudioFFTResult \<Rightarrow> AudioFFTResult" where
  "result_loop E s j ret_value =
     (if j < c_div (len s) 2 then
        (let m = magnitude_fft E s j
         in result_loop E s (j + 1)
              (if magnitude ret_value < m then ret_value\<lparr>magnitude := m, bin := j\<rparr>
               else ret_value))
      else ret_value)"
  by pat_completeness auto
termination
  by (relation "measure (\<lambda>(E, s, j, r). nat (c_div (len s) 2 - j))") auto

declare result_loop.simps [simp del]

definition result_fft :: "('c, 'w) environment \<Rightarrow> ('c, 'w) AudioFFTBase \<Rightarrow> AudioFFTResult" where
  "result_fft E s =
     (let ret_value = result_loop E s 1 \<lparr>bin = 0, magnitude = 0, frequency = None\<rparr>
      in ret_value\<lparr>frequency := frequency_fft s (bin ret_value)\<rparr>)"

text \<open>
  \<^verbatim>\<open>InsertSorted\<close>: the inner loop \<^verbatim>\<open>for (int i=N-2;i>=j;i--) result[i+1] = result[i]\<close>
  and the outer loop \<^verbatim>\<open>for (int j=0;j<N;j++)\<close>. \<open>N\<close> is the length of the array; every
  index the loops use lies inside it.
\<close>

function shift_right :: "AudioFFTResult list \<Rightarrow> int \<Rightarrow> int \<Rightarrow> AudioFFTResult list" where
  "shift_right result j i =
     (if j \<le> i then shift_right (result[nat (i + 1) := result ! nat i]) j (i - 1)
      else result)"
  by pat_completeness auto
termination
  by (relation "measure (\<lambda>(r, j, i). nat (i - j + 1))") auto

declare shift_right.simps [simp del]

function InsertSorted_loop ::
  "AudioFFTResult list \<Rightarrow> AudioFFTResult \<Rightarrow> int \<Rightarrow> AudioFFTResult list" where
  "InsertSorted_loop result tmp j =
     (if j < int (length result) then
        InsertSorted_loop
          (if magnitude (result ! nat j) < magnitude tmp
           then (shift_right result j (int (length result) - 2))[nat j := tmp]
           else result)
          tmp (j + 1)
      else result)"
  by pat_completeness auto
termination
proof (relation "measure (\<lambda>(r, t, j). nat (int (length r) - j))")
  show "wf (measure (\<lambda>(r, t, j). nat (int (length r) - j)))"
    by simp
next
  fix result :: "AudioFFTResult list" and tmp :: AudioFFTResult and j :: int
  assume "j < int (length result)"
  moreover have "length (shift_right result a b) = length result" for a b
    by (induction result a b rule: shift_right.induct)
       (subst shift_right.simps, simp)
  ultimately show
    "((if magnitude (result ! nat j) < magnitude tmp
       then (shift_right result j (int (length result) - 2))[nat j := tmp]
       else result, tmp, j + 1), result, tmp, j)
     \<in> measure (\<lambda>(r, t, j). nat (int (length r) - j))"
    by simp
qed

declare InsertSorted_loop.simps [simp del]

definition InsertSorted ::
  "AudioFFTResult list \<Rightarrow> AudioFFTResult \<Rightarrow> AudioFFTResult list \<times> bool" where
  "InsertSorted result tmp = (InsertSorted_loop result tmp 0, False)"

text \<open>
  \<^verbatim>\<open>template<int N> void resultArray(AudioFFTResult (&result)[N])\<close>. The array is the
  caller's: the first loop overwrites the magnitude of every slot and leaves the other
  two fields as they were. The source writes the sentinel to a field \<^verbatim>\<open>fft\<close> and calls
  \<^verbatim>\<open>insertSorted\<close>; the struct has no field \<^verbatim>\<open>fft\<close> and the class no method of that
  spelling, so the model takes them for \<^verbatim>\<open>magnitude\<close> and \<^verbatim>\<open>InsertSorted\<close>, the only
  reading under which the template can be instantiated.
\<close>

function resultArray_loop ::
  "('c, 'w) environment \<Rightarrow> ('c, 'w) AudioFFTBase \<Rightarrow> int \<Rightarrow> AudioFFTResult list
     \<Rightarrow> AudioFFTResult list" where
  "resultArray_loop E s j result =
     (if j < c_div (len s) 2 then
        (let act = \<lparr>bin = j, magnitude = magnitude_fft E s j, frequency = frequency_fft s j\<rparr>
         in resultArray_loop E s (j + 1) (fst (InsertSorted result act)))
      else result)"
  by pat_completeness auto
termination
  by (relation "measure (\<lambda>(E, s, j, r). nat (c_div (len s) 2 - j))") auto

declare resultArray_loop.simps [simp del]

definition resultArray ::
  "('c, 'w) environment \<Rightarrow> ('c, 'w) AudioFFTBase \<Rightarrow> AudioFFTResult list \<Rightarrow> AudioFFTResult list" where
  "resultArray E s result =
     resultArray_loop E s 1 (map (\<lambda>r. r\<lparr>magnitude := - 1000000\<rparr>) result)"

section \<open>A recording driver\<close>

text \<open>
  A test double for the abstract driver: the outside world is the log of the calls
  made so far, oldest first. The driver is valid between \<open>begin\<close> and \<open>end\<close>, its
  spectrum is a given table, the clock counts the calls, and every callback logs its
  own address and leaves the object alone.
\<close>

datatype event = DrvBegin int | DrvEnd | DrvSetValue int int | DrvFft | Called nat

definition started :: "event list \<Rightarrow> bool" where
  "started w =
     foldl (\<lambda>b e. case e of DrvBegin n \<Rightarrow> True | DrvEnd \<Rightarrow> False | _ \<Rightarrow> b) False w"

definition recording_driver :: "(int \<Rightarrow> real) \<Rightarrow> event list FFTDriver" where
  "recording_driver spectrum =
     \<lparr>begin_drv = (\<lambda>n w. w @ [DrvBegin n]),
      end_drv = (\<lambda>w. w @ [DrvEnd]),
      setValue = (\<lambda>pos v w. w @ [DrvSetValue pos v]),
      fft_drv = (\<lambda>w. w @ [DrvFft]),
      magnitude_drv = (\<lambda>idx w. spectrum idx),
      isValid = started\<rparr>"

definition recording :: "(int \<Rightarrow> real) \<Rightarrow> (nat, event list) environment" where
  "recording spectrum =
     \<lparr>driver = recording_driver spectrum,
      millis = length,
      call = (\<lambda>c s. s\<lparr>p_driver := p_driver s @ [Called c]\<rparr>)\<rparr>"

definition decreasing :: "int \<Rightarrow> real" where
  "decreasing i = (if i = 1 then 3 else if i = 2 then 2 else if i = 3 then 1 else 0)"

definition silence :: "int \<Rightarrow> real" where
  "silence i = 0"

definition tone2 :: "int \<Rightarrow> real" where
  "tone2 i = (if i = 2 then 5 else 0)"

section \<open>Notions used to state the properties\<close>

text \<open>
  A callback that leaves the object alone: it may act on the outside world, and the
  members of the object are after the call what they were before. This is what the
  specification asks of a callback (it may read results, it must not reconfigure the
  pipeline or write to it).
\<close>

definition callback_readonly :: "('c, 'w) environment \<Rightarrow> bool" where
  "callback_readonly E = (\<forall>c s. call E c s = s\<lparr>p_driver := p_driver (call E c s)\<rparr>)"

text \<open>
  The number of rounds of the loop of \<^verbatim>\<open>processSamples\<close> that starts at \<open>j\<close> with the
  step \<open>ch\<close>: one for every frame that starts before \<open>samples\<close>.
\<close>

definition frames_from :: "int \<Rightarrow> int \<Rightarrow> int \<Rightarrow> int" where
  "frames_from ch samples j = (if j < samples then (samples - j + ch - 1) div ch else 0)"

text \<open>
  The outside world after the samples of the first \<open>m\<close> frames are stored, frame \<open>i\<close>
  in slot \<open>i\<close>, in this order and with no other call in between.
\<close>

fun load :: "'w FFTDriver \<Rightarrow> (int \<Rightarrow> int option) \<Rightarrow> int \<Rightarrow> int \<Rightarrow> nat \<Rightarrow> 'w \<Rightarrow> 'w" where
  "load D dT ch cu 0 w = w"
| "load D dT ch cu (Suc m) w =
     (case dT (int m * ch + cu) of
        None \<Rightarrow> load D dT ch cu m w
      | Some v \<Rightarrow> setValue D (int m) v (load D dT ch cu m w))"

text \<open>
  Ingesting frame by frame, as the specification words it: for each of the first \<open>k\<close>
  frames in turn, the sample of the used channel (index \<open>i * ch + cu\<close> for frame \<open>i\<close>)
  is written to the driver at the cursor and the cursor advances; when the cursor
  reaches the window length, the transform runs, the cursor is reset, the clock is
  read into the timestamp and the callback, if there is one, is called.
\<close>

fun ingest_frames ::
  "('c, 'w) environment \<Rightarrow> (int \<Rightarrow> int option) \<Rightarrow> int \<Rightarrow> int \<Rightarrow> nat \<Rightarrow> ('c, 'w) AudioFFTBase
     \<Rightarrow> ('c, 'w) AudioFFTBase" where
  "ingest_frames E dT ch cu 0 s = s"
| "ingest_frames E dT ch cu (Suc k) s =
     (let t = ingest_frames E dT ch cu k s in
      case dT (int k * ch + cu) of
        None \<Rightarrow> t
      | Some v \<Rightarrow>
          (let w = setValue (driver E) (current_pos t) v (p_driver t) in
           if current_pos t + 1 < len t
           then t\<lparr>p_driver := w, current_pos := current_pos t + 1\<rparr>
           else
             (let w2 = fft_drv (driver E) w;
                  t3 = t\<lparr>p_driver := w2, current_pos := 0, timestamp := millis E w2\<rparr>
              in case callback (cfg t) of None \<Rightarrow> t3 | Some c \<Rightarrow> call E c t3)))"

text \<open>
  The dominant bin as the specification words it: the first bin (index 1) seeds the
  maximum, the scan goes on from bin 2 with a strict comparison, and a window with
  \<open>len / 2 \<le> 1\<close> gives the zero result.
\<close>

definition dominant_spec :: "('c, 'w) environment \<Rightarrow> ('c, 'w) AudioFFTBase \<Rightarrow> AudioFFTResult" where
  "dominant_spec E s =
     (if c_div (len s) 2 \<le> 1 then \<lparr>bin = 0, magnitude = 0, frequency = frequency_fft s 0\<rparr>
      else
        (let r = result_loop E s 2 \<lparr>bin = 1, magnitude = magnitude_fft E s 1, frequency = None\<rparr>
         in r\<lparr>frequency := frequency_fft s (bin r)\<rparr>))"

text \<open>
  What the loop of \<^verbatim>\<open>result()\<close> achieves when it starts at bin \<open>j\<close> with the result
  \<open>ret\<close> and ends with \<open>r\<close>: \<open>r\<close> is at least \<open>ret\<close> and every bin from \<open>j\<close> on, and
  either \<open>r\<close> is \<open>ret\<close> or \<open>r\<close> is the first bin from \<open>j\<close> on whose magnitude exceeds
  \<open>ret\<close> and is the greatest.
\<close>

definition best_from ::
  "('c, 'w) environment \<Rightarrow> ('c, 'w) AudioFFTBase \<Rightarrow> int \<Rightarrow> AudioFFTResult \<Rightarrow> AudioFFTResult \<Rightarrow> bool" where
  "best_from E s j ret r \<longleftrightarrow>
     magnitude ret \<le> magnitude r \<and> frequency r = frequency ret \<and>
     (\<forall>i. j \<le> i \<and> i < c_div (len s) 2 \<longrightarrow> magnitude_fft E s i \<le> magnitude r) \<and>
     (r = ret \<or>
      j \<le> bin r \<and> bin r < c_div (len s) 2 \<and> magnitude r = magnitude_fft E s (bin r) \<and>
      magnitude ret < magnitude r \<and>
      (\<forall>i. j \<le> i \<and> i < bin r \<longrightarrow> magnitude_fft E s i < magnitude r))"

text \<open>
  Example objects for the recording driver: the object right after a successful
  \<open>begin\<close> with window length \<open>n\<close> and configuration \<open>c\<close>, and three configurations: one
  channel of 16 bit samples with a callback, two channels of 16 bit samples, and one
  channel of 8 bit samples, a depth the class does not support.
\<close>

definition begun :: "int \<Rightarrow> nat AudioFFTConfig \<Rightarrow> (nat, event list) AudioFFTBase" where
  "begun n c = \<lparr>p_driver = [DrvBegin n], len = n, current_pos = 0, cfg = c, timestamp = 0\<rparr>"

definition mono16 :: "nat AudioFFTConfig" where
  "mono16 = \<lparr>sample_rate = 8000, channels = 1, bits_per_sample = 16, callback = Some 7,
             channel_used = 0\<rparr>"

definition stereo16 :: "nat AudioFFTConfig" where
  "stereo16 = \<lparr>sample_rate = 44100, channels = 2, bits_per_sample = 16, callback = None,
               channel_used = 0\<rparr>"

definition mono8 :: "nat AudioFFTConfig" where
  "mono8 = \<lparr>sample_rate = 8000, channels = 1, bits_per_sample = 8, callback = None,
            channel_used = 0\<rparr>"

section \<open>Auxiliary facts\<close>

subsection \<open>The power of two check\<close>

lemma and_pred_even:
  fixes m :: int
  shows "(2 * m) AND (2 * m - 1) = 2 * (m AND (m - 1))"
proof -
  have "(2 * m - 1) div 2 = m - 1" by simp
  moreover have "(2 * m) div 2 = m" by simp
  ultimately show ?thesis
    by (simp add: and_rec [of "2 * m" "2 * m - 1"])
qed

lemma and_pred_odd:
  fixes m :: int
  shows "(2 * m + 1) AND (2 * m + 1 - 1) = 2 * m"
proof -
  have "(2 * m + 1) AND (2 * m) = 2 * (m AND m)"
    by (simp add: and_rec [of "2 * m + 1" "2 * m"])
  then show ?thesis by simp
qed

lemma and_pred_zero_iff:
  fixes n :: int
  assumes "1 \<le> n"
  shows "(n AND (n - 1)) = 0 \<longleftrightarrow> (\<exists>k. n = 2 ^ k)"
  using assms
proof (induction "nat n" arbitrary: n rule: less_induct)
  case less
  show ?case
  proof (cases "even n")
    case True
    then obtain m where m: "n = 2 * m" by (auto elim: evenE)
    with less.prems have m1: "1 \<le> m" by simp
    then have "nat m < nat n" using m by simp
    from less.hyps [OF this m1] have IH: "(m AND (m - 1)) = 0 \<longleftrightarrow> (\<exists>k. m = 2 ^ k)" .
    have "(n AND (n - 1)) = 0 \<longleftrightarrow> (m AND (m - 1)) = 0"
      unfolding m and_pred_even by simp
    moreover have "(\<exists>k. n = 2 ^ k) \<longleftrightarrow> (\<exists>k. m = 2 ^ k)"
    proof
      assume "\<exists>k. n = 2 ^ k"
      then obtain k where k: "n = 2 ^ k" ..
      with True have "k \<noteq> 0" by (cases k) auto
      then obtain k' where "k = Suc k'" by (cases k) auto
      with k m have "m = 2 ^ k'" by simp
      then show "\<exists>k. m = 2 ^ k" ..
    next
      assume "\<exists>k. m = 2 ^ k"
      then obtain k where "m = 2 ^ k" ..
      with m have "n = 2 ^ Suc k" by simp
      then show "\<exists>k. n = 2 ^ k" ..
    qed
    ultimately show ?thesis using IH by simp
  next
    case False
    then obtain m where m: "n = 2 * m + 1" by (auto elim: oddE)
    have "(n AND (n - 1)) = 2 * m"
      unfolding m by (rule and_pred_odd)
    moreover have "(\<exists>k. n = 2 ^ k) \<longleftrightarrow> m = 0"
    proof
      assume "\<exists>k. n = 2 ^ k"
      then obtain k where k: "n = 2 ^ k" ..
      with False have "k = 0" by (cases k) auto
      with k m show "m = 0" by simp
    next
      assume "m = 0"
      with m have "n = 2 ^ 0" by simp
      then show "\<exists>k. n = 2 ^ k" ..
    qed
    ultimately show ?thesis by simp
  qed
qed

lemma isPowerOfTwo_iff: "isPowerOfTwo x \<longleftrightarrow> x = 0 \<or> (\<exists>k<16. x = 2 ^ k)"
proof (cases "x = 0")
  case True
  then show ?thesis by (simp add: isPowerOfTwo_def)
next
  case False
  then have pos: "1 \<le> uint x"
    by (metis uint_0_iff uint_ge_0 less_le not_less zless_imp_add1_zle zero_less_one add.left_neutral) 
  have "(\<exists>k. uint x = 2 ^ k) \<longleftrightarrow> (\<exists>k<16. x = 2 ^ k)"
  proof
    assume "\<exists>k. uint x = 2 ^ k"
    then obtain k where k: "uint x = 2 ^ k" ..
    have "uint x < 2 ^ 16" using uint_lt2p [of x] by simp
    with k have "(2::int) ^ k < 2 ^ 16" by simp
    then have k16: "k < 16" by (rule power_less_imp_less_exp [rotated]) simp
    have "x = word_of_int (uint x)" by simp
    also have "\<dots> = 2 ^ k" unfolding k by simp
    finally show "\<exists>k<16. x = 2 ^ k" using k16 by blast
  next
    assume "\<exists>k<16. x = 2 ^ k"
    then obtain k where k: "k < 16" "x = 2 ^ k" by blast
    have lt: "(2::int) ^ k < 2 ^ 16"
      using k(1) by (intro power_strict_increasing) simp_all
    have "x = word_of_int (2 ^ k)" using k(2) by simp
    then have "uint x = 2 ^ k mod 2 ^ 16"
      by (simp only: uint_word_of_int len_bit0 len_num1 One_nat_def) simp
    with lt have "uint x = 2 ^ k" by simp
    then show "\<exists>k. uint x = 2 ^ k" ..
  qed
  with and_pred_zero_iff [OF pos] False show ?thesis
    by (simp add: isPowerOfTwo_def)
qed

text \<open>The example objects are what \<open>begin\<close> produces with the recording driver.\<close>

lemma begin_fft_recording:
  assumes "isPowerOfTwo n"
  shows "begin_fft (recording f) (new_AudioFFTBase n []) c = (begun (uint n) c, True)"
  using assms
  by (simp add: begin_fft_def new_AudioFFTBase_def begun_def Let_def recording_def
      recording_driver_def started_def)

subsection \<open>The buffering loop\<close>

lemma callback_readonly_fields:
  assumes "callback_readonly E"
  shows "cfg (call E c s) = cfg s" and "len (call E c s) = len s"
    and "current_pos (call E c s) = current_pos s" and "timestamp (call E c s) = timestamp s"
proof -
  from assms have eq: "call E c s = s\<lparr>p_driver := p_driver (call E c s)\<rparr>"
    unfolding callback_readonly_def by blast
  show "cfg (call E c s) = cfg s" by (subst eq) simp
  show "len (call E c s) = len s" by (subst eq) simp
  show "current_pos (call E c s) = current_pos s" by (subst eq) simp
  show "timestamp (call E c s) = timestamp s" by (subst eq) simp
qed

lemma fft_fields:
  assumes "callback_readonly E"
  shows "cfg (fft E s) = cfg s" and "len (fft E s) = len s" and "current_pos (fft E s) = 0"
    and "timestamp (fft E s) = millis E (fft_drv (driver E) (p_driver s))"
  using callback_readonly_fields [OF assms]
  by (simp_all add: fft_def Let_def split: option.split)

lemma addSample_fields:
  assumes "callback_readonly E"
  shows "cfg (addSample E v s) = cfg s" and "len (addSample E v s) = len s"
    and "current_pos (addSample E v s) = (if len s \<le> current_pos s + 1 then 0 else current_pos s + 1)"
  using fft_fields [OF assms]
  by (simp_all add: addSample_def Let_def)

lemma frames_from_step:
  assumes "1 \<le> ch" "j < samples"
  shows "frames_from ch samples j = 1 + frames_from ch samples (j + ch)"
proof (cases "j + ch < samples")
  case True
  have "(samples - j + ch - 1) div ch = (samples - (j + ch) + ch - 1 + ch) div ch"
    by (simp add: algebra_simps)
  also have "\<dots> = (samples - (j + ch) + ch - 1) div ch + 1"
    using assms by simp
  finally show ?thesis using True assms by (simp add: frames_from_def)
next
  case False
  then have "0 \<le> samples - j - 1" "samples - j - 1 < ch" using assms by auto
  then have "(samples - j - 1) div ch = 0" by (simp add: div_pos_pos_trivial)
  moreover have "(samples - j + ch - 1) div ch = (samples - j - 1 + ch) div ch"
    by (simp add: algebra_simps)
  moreover have "(samples - j - 1 + ch) div ch = (samples - j - 1) div ch + 1"
    using assms by simp
  ultimately show ?thesis using False assms by (simp add: frames_from_def)
qed

lemma frames_from_nonneg: "1 \<le> ch \<Longrightarrow> 0 \<le> frames_from ch samples j"
  by (simp add: frames_from_def pos_imp_zdiv_nonneg_iff)

lemma loop_returns:
  assumes ro: "callback_readonly E" and ch: "1 \<le> channels (cfg s)"
  shows "\<exists>r. processSamples_loop E dT samples j s = Some r \<and>
           (\<forall>s'. r = Inr s' \<longrightarrow> cfg s' = cfg s \<and> len s' = len s \<and>
              (0 \<le> current_pos s \<and> current_pos s < len s \<longrightarrow>
                 current_pos s' = (current_pos s + frames_from (channels (cfg s)) samples j) mod len s))"
  using ch
proof (induction "nat (samples - j)" arbitrary: j s rule: less_induct)
  case less
  show ?case
  proof (cases "j < samples")
    case False
    then show ?thesis
      by (subst processSamples_loop.simps) (simp add: frames_from_def)
  next
    case True
    show ?thesis
    proof (cases "dT (j + uint (channel_used (cfg s)))")
      case None
      with True show ?thesis
        by (subst processSamples_loop.simps) simp
    next
      case (Some v)
      let ?s1 = "addSample E v s"
      let ?ch = "channels (cfg s)"
      have c1: "cfg ?s1 = cfg s" and l1: "len ?s1 = len s"
        and p1: "current_pos ?s1 = (if len s \<le> current_pos s + 1 then 0 else current_pos s + 1)"
        using addSample_fields [OF ro] by blast+
      have "nat (samples - (j + ?ch)) < nat (samples - j)"
        using True less.prems by simp
      from less.hyps [OF this, of ?s1] less.prems c1
      obtain r where r: "processSamples_loop E dT samples (j + ?ch) ?s1 = Some r"
        and rr: "\<And>s'. r = Inr s' \<Longrightarrow> cfg s' = cfg ?s1 \<and> len s' = len ?s1 \<and>
              (0 \<le> current_pos ?s1 \<and> current_pos ?s1 < len ?s1 \<longrightarrow>
                 current_pos s' = (current_pos ?s1 + frames_from ?ch samples (j + ?ch)) mod len ?s1)"
        by auto
      have unf: "processSamples_loop E dT samples j s = Some r"
        using True Some r c1 by (subst processSamples_loop.simps) (simp add: Let_def)
      have "cfg s' = cfg s \<and> len s' = len s \<and>
              (0 \<le> current_pos s \<and> current_pos s < len s \<longrightarrow>
                 current_pos s' = (current_pos s + frames_from ?ch samples j) mod len s)"
        if "r = Inr s'" for s'
      proof -
        note h = rr [OF that]
        have fs: "frames_from ?ch samples j = 1 + frames_from ?ch samples (j + ?ch)"
          using frames_from_step [OF less.prems True] .
        have "current_pos s' = (current_pos s + frames_from ?ch samples j) mod len s"
          if inv: "0 \<le> current_pos s \<and> current_pos s < len s"
        proof -
          have p1': "current_pos ?s1 = (current_pos s + 1) mod len s"
          proof (cases "len s \<le> current_pos s + 1")
            case True
            with inv have "current_pos s + 1 = len s" by simp
            with True p1 show ?thesis by simp
          next
            case False
            with inv p1 show ?thesis by simp
          qed
          then have "0 \<le> current_pos ?s1 \<and> current_pos ?s1 < len ?s1"
            using inv l1 by simp
          with h have "current_pos s' = (current_pos ?s1 + frames_from ?ch samples (j + ?ch)) mod len s"
            using l1 by simp
          also have "\<dots> = (current_pos s + 1 + frames_from ?ch samples (j + ?ch)) mod len s"
            unfolding p1' by (simp add: mod_add_left_eq)
          finally show ?thesis using fs by (simp add: algebra_simps)
        qed
        with h c1 l1 show ?thesis by simp
      qed
      with unf show ?thesis by blast
    qed
  qed
qed

lemma sizeof_pos: "0 < sizeof T"
  by (cases T) simp_all

lemma dataT_inside:
  assumes "0 \<le> idx" "idx < int (length data div sizeof T)"
  shows "\<exists>v. dataT T data idx = Some v"
proof -
  from assms have "nat idx + 1 \<le> length data div sizeof T" by linarith
  then have "(nat idx + 1) * sizeof T \<le> (length data div sizeof T) * sizeof T"
    by (rule mult_le_mono1)
  also have "\<dots> \<le> length data" by simp
  finally show ?thesis using assms by (simp add: dataT_def)
qed

lemma dataT_take:
  "dataT T (take (length data div sizeof T * sizeof T) data) = dataT T data"
proof
  fix idx
  let ?k = "length data div sizeof T * sizeof T"
  have k: "?k \<le> length data" by simp
  show "dataT T (take ?k data) idx = dataT T data idx"
  proof (cases "0 \<le> idx \<and> (nat idx + 1) * sizeof T \<le> length data")
    case True
    then have "nat idx + 1 \<le> length data div sizeof T"
      using sizeof_pos [of T] by (simp add: less_eq_div_iff_mult_less_eq)
    then have le: "(nat idx + 1) * sizeof T \<le> ?k"
      by (rule mult_le_mono1)
    then have "sizeof T \<le> ?k - nat idx * sizeof T"
      by simp
    then have "take (sizeof T) (drop (nat idx * sizeof T) (take ?k data))
             = take (sizeof T) (drop (nat idx * sizeof T) data)"
      by (simp add: drop_take min_def)
    with True le k show ?thesis by (simp add: dataT_def)
  next
    case False
    have "(nat idx + 1) * sizeof T \<le> length data" if "(nat idx + 1) * sizeof T \<le> ?k"
      using that k by (rule order_trans)
    with False have "\<not> (0 \<le> idx \<and> (nat idx + 1) * sizeof T \<le> ?k)"
      by blast
    with False k show ?thesis by (simp add: dataT_def)
  qed
qed

lemma samples_take:
  "length (take (length data div sizeof T * sizeof T) data) div sizeof T = length data div sizeof T"
  using sizeof_pos [of T] by (simp add: min_def)

lemma read_index_inside:
  fixes ch cu samples i :: int
  assumes ch: "1 \<le> ch" and cu: "cu < (if samples mod ch = 0 then ch else samples mod ch)"
    and i: "i * ch < samples"
  shows "i * ch + cu < samples"
proof -
  have s: "samples = samples div ch * ch + samples mod ch" by simp
  have m: "0 \<le> samples mod ch" "samples mod ch < ch" using ch by simp_all
  have cu_ch: "cu < ch"
  proof (cases "samples mod ch = 0")
    case True
    with cu show ?thesis by simp
  next
    case False
    with cu have "cu < samples mod ch" by simp
    with m show ?thesis by linarith
  qed
  have iq: "i \<le> samples div ch"
  proof (rule ccontr)
    assume "\<not> i \<le> samples div ch"
    then have "samples div ch + 1 \<le> i" by simp
    then have "(samples div ch + 1) * ch \<le> i * ch" using ch by (simp add: mult_right_mono)
    then have "samples div ch * ch + ch \<le> i * ch" by (simp add: algebra_simps)
    with s m i show False by linarith
  qed
  show ?thesis
  proof (cases "i = samples div ch")
    case True
    with i s have "samples mod ch \<noteq> 0" by auto
    with cu have "cu < samples mod ch" by simp
    then have "i * ch + cu < i * ch + samples mod ch" by simp
    also have "\<dots> = samples" using True by simp
    finally show ?thesis .
  next
    case False
    with iq have "i + 1 \<le> samples div ch" by simp
    then have "(i + 1) * ch \<le> samples div ch * ch" using ch by (simp add: mult_right_mono)
    then have "i * ch + ch \<le> samples div ch * ch" by (simp add: algebra_simps)
    with s m cu_ch show ?thesis by linarith
  qed
qed

lemma loop_inside:
  assumes ro: "callback_readonly E" and ch: "1 \<le> channels (cfg s)"
    and rd: "\<forall>i. 0 \<le> i \<and> j + i * channels (cfg s) < samples \<longrightarrow>
               dT (j + i * channels (cfg s) + uint (channel_used (cfg s))) \<noteq> None"
  shows "\<exists>s'. processSamples_loop E dT samples j s = Some (Inr s')"
  using ch rd
proof (induction "nat (samples - j)" arbitrary: j s rule: less_induct)
  case less
  show ?case
  proof (cases "j < samples")
    case False
    then show ?thesis
      by (subst processSamples_loop.simps) simp
  next
    case True
    let ?ch = "channels (cfg s)"
    let ?cu = "uint (channel_used (cfg s))"
    from less.prems(2) [rule_format, of 0] True
    obtain v where v: "dT (j + ?cu) = Some v" by auto
    let ?s1 = "addSample E v s"
    have c1: "cfg ?s1 = cfg s"
      using addSample_fields [OF ro] by blast
    have dec: "nat (samples - (j + ?ch)) < nat (samples - j)"
      using True less.prems(1) by simp
    have rd': "\<forall>i. 0 \<le> i \<and> j + ?ch + i * channels (cfg ?s1) < samples \<longrightarrow>
               dT (j + ?ch + i * channels (cfg ?s1) + uint (channel_used (cfg ?s1))) \<noteq> None"
    proof (intro allI impI)
      fix i :: int
      assume a: "0 \<le> i \<and> j + ?ch + i * channels (cfg ?s1) < samples"
      have e: "j + ?ch + i * ?ch = j + (i + 1) * ?ch" by (simp add: algebra_simps)
      from a c1 have "0 \<le> i + 1 \<and> j + (i + 1) * ?ch < samples" by (simp add: e)
      from less.prems(2) [rule_format, OF this]
      show "dT (j + ?ch + i * channels (cfg ?s1) + uint (channel_used (cfg ?s1))) \<noteq> None"
        by (simp add: c1 e)
    qed
    from less.hyps [OF dec, of ?s1] less.prems(1) rd' c1
    obtain s' where "processSamples_loop E dT samples (j + ?ch) ?s1 = Some (Inr s')"
      by auto
    then have "processSamples_loop E dT samples j s = Some (Inr s')"
      using True v c1 by (subst processSamples_loop.simps) (simp add: Let_def)
    then show ?thesis by blast
  qed
qed

lemma begin_fft_True:
  assumes "begin_fft E s0 info = (s, True)"
  shows "cfg s = info" and "len s = len s0" and "current_pos s = 0"
    and "isValid (driver E) (p_driver s)"
  using assms by (auto simp: begin_fft_def Let_def split: if_splits)

lemma loop_fill:
  assumes "current_pos s = 0" and "int m < len s"
    and "\<forall>i<m. int i * channels (cfg s) < samples \<and>
               dT (int i * channels (cfg s) + uint (channel_used (cfg s))) \<noteq> None"
  shows "processSamples_loop E dT samples 0 s =
         processSamples_loop E dT samples (int m * channels (cfg s))
           (s\<lparr>p_driver := load (driver E) dT (channels (cfg s)) (uint (channel_used (cfg s))) m
                              (p_driver s),
              current_pos := int m\<rparr>)"
  using assms(2,3)
proof (induction m)
  case 0
  have "s\<lparr>current_pos := current_pos s\<rparr> = s" by simp
  then have "s\<lparr>current_pos := 0\<rparr> = s" unfolding assms(1) .
  then show ?case by simp
next
  case (Suc m)
  let ?ch = "channels (cfg s)"
  let ?cu = "uint (channel_used (cfg s))"
  let ?sm = "s\<lparr>p_driver := load (driver E) dT ?ch ?cu m (p_driver s), current_pos := int m\<rparr>"
  from Suc.prems have m: "int m < len s"
    and rd: "\<forall>i<m. int i * ?ch < samples \<and> dT (int i * ?ch + ?cu) \<noteq> None"
    by auto
  from Suc.prems(2) have lt: "int m * ?ch < samples" and "dT (int m * ?ch + ?cu) \<noteq> None"
    by auto
  then obtain v where v: "dT (int m * ?ch + ?cu) = Some v" by auto
  have nofull: "\<not> len s \<le> int m + 1" using Suc.prems(1) by simp
  have add: "addSample E v ?sm =
      s\<lparr>p_driver := load (driver E) dT ?ch ?cu (Suc m) (p_driver s), current_pos := int (Suc m)\<rparr>"
    using nofull v by (simp add: addSample_def Let_def)
  have "processSamples_loop E dT samples 0 s = processSamples_loop E dT samples (int m * ?ch) ?sm"
    using Suc.IH [OF m rd] .
  also have "\<dots> = processSamples_loop E dT samples (int m * ?ch + ?ch) (addSample E v ?sm)"
    using lt v by (subst processSamples_loop.simps) (simp add: Let_def add)
  also have "int m * ?ch + ?ch = int (Suc m) * ?ch" by (simp add: algebra_simps)
  finally show ?case unfolding add .
qed

lemma loop_full_window:
  assumes ro: "callback_readonly E"
    and pos: "current_pos s = 0" and ln: "0 < len s"
    and ch: "1 \<le> channels (cfg s)"
    and cu: "uint (channel_used (cfg s)) < channels (cfg s)"
    and smp: "samples = len s * channels (cfg s)"
    and rd: "\<forall>idx. 0 \<le> idx \<and> idx < samples \<longrightarrow> dT idx \<noteq> None"
  shows "processSamples_loop E dT samples 0 s =
         Some (Inr (fft E
           (s\<lparr>p_driver := load (driver E) dT (channels (cfg s)) (uint (channel_used (cfg s)))
                               (nat (len s)) (p_driver s),
              current_pos := len s\<rparr>)))"
proof -
  let ?ch = "channels (cfg s)"
  let ?cu = "uint (channel_used (cfg s))"
  define m where "m = nat (len s) - 1"
  have m: "int m = len s - 1" and Sm: "Suc m = nat (len s)" using ln by (simp_all add: m_def)
  let ?sm = "s\<lparr>p_driver := load (driver E) dT ?ch ?cu m (p_driver s), current_pos := int m\<rparr>"
  have inside: "int i * ?ch < samples \<and> dT (int i * ?ch + ?cu) \<noteq> None" if "i \<le> m" for i
  proof -
    from that m have "int i + 1 \<le> len s" by simp
    then have "(int i + 1) * ?ch \<le> len s * ?ch" using ch by (simp add: mult_right_mono)
    then have le: "int i * ?ch + ?ch \<le> samples" by (simp add: smp algebra_simps)
    with cu ch have a: "int i * ?ch + ?cu < samples" and b: "int i * ?ch < samples" by linarith+
    have "0 \<le> int i * ?ch" using ch by simp
    then have "0 \<le> int i * ?ch + ?cu" by simp
    with a rd b show ?thesis by blast
  qed
  have fill: "processSamples_loop E dT samples 0 s =
              processSamples_loop E dT samples (int m * ?ch) ?sm"
    by (rule loop_fill) (use pos m inside in auto)
  from inside [of m] obtain v where lt: "int m * ?ch < samples"
    and v: "dT (int m * ?ch + ?cu) = Some v" by auto
  let ?full = "s\<lparr>p_driver := load (driver E) dT ?ch ?cu (nat (len s)) (p_driver s),
                  current_pos := len s\<rparr>"
  have add: "addSample E v ?sm = fft E ?full"
    using v m by (simp add: addSample_def Let_def Sm [symmetric])
  have c: "cfg (fft E ?full) = cfg s"
    using fft_fields(1) [OF ro, of ?full] by simp
  have "int m * ?ch + ?ch = (int m + 1) * ?ch" by (simp add: algebra_simps)
  also have "\<dots> = samples" using m by (simp add: smp)
  finally have stop: "\<not> int m * ?ch + ?ch < samples" by simp
  have "processSamples_loop E dT samples (int m * ?ch) ?sm =
        processSamples_loop E dT samples (int m * ?ch + ?ch) (fft E ?full)"
    using lt v by (subst processSamples_loop.simps) (simp add: Let_def add c)
  also have "\<dots> = Some (Inr (fft E ?full))"
    using stop by (subst processSamples_loop.simps) simp
  finally show ?thesis using fill by simp
qed

lemma write_fft_invalid:
  "\<not> isValid (driver E) (p_driver s) \<Longrightarrow> write_fft E s data = Some (Inr (s, 0))"
  by (simp add: write_fft_def)

lemma write_fft_unsupported:
  "isValid (driver E) (p_driver s) \<Longrightarrow> bits_per_sample (cfg s) \<notin> {16, 24, 32} \<Longrightarrow>
   write_fft E s data = Some (Inr (s, length data))"
  by (simp add: write_fft_def Let_def)

lemma write_fft_supported:
  "isValid (driver E) (p_driver s) \<Longrightarrow> bits_per_sample (cfg s) = 8 * int (sizeof T) \<Longrightarrow>
   write_fft E s data =
     map_option (map_sum id (\<lambda>s'. (s', length data))) (processSamples E T s data)"
  by (cases T) (simp_all add: write_fft_def Let_def)

lemma supported_sample_type:
  "b \<in> {16, 24, 32} \<Longrightarrow> \<exists>T. b = 8 * int (sizeof T)"
proof -
  assume "b \<in> {16, 24, 32}"
  then consider "b = 16" | "b = 24" | "b = 32" by auto
  then show ?thesis
  proof cases
    case 1 then have "b = 8 * int (sizeof Int16)" by simp then show ?thesis ..
  next
    case 2 then have "b = 8 * int (sizeof Int24)" by simp then show ?thesis ..
  next
    case 3 then have "b = 8 * int (sizeof Int32)" by simp then show ?thesis ..
  qed
qed

lemma frames_from_zero:
  "1 \<le> ch \<Longrightarrow> 0 \<le> samples \<Longrightarrow> frames_from ch samples 0 = (samples + ch - 1) div ch"
  by (auto simp: frames_from_def div_pos_pos_trivial)

text \<open>The loop of \<^verbatim>\<open>processSamples\<close> ingests frame by frame.\<close>

lemma addSample_explicit:
  "addSample E v t =
     (let w = setValue (driver E) (current_pos t) v (p_driver t) in
      if current_pos t + 1 < len t
      then t\<lparr>p_driver := w, current_pos := current_pos t + 1\<rparr>
      else
        (let w2 = fft_drv (driver E) w;
             t3 = t\<lparr>p_driver := w2, current_pos := 0, timestamp := millis E w2\<rparr>
         in case callback (cfg t) of None \<Rightarrow> t3 | Some c \<Rightarrow> call E c t3))"
  by (simp add: addSample_def fft_def Let_def not_less split: option.split)

lemma ingest_frames_Suc:
  "ingest_frames E dT ch cu (Suc k) s =
     (case dT (int k * ch + cu) of
        None \<Rightarrow> ingest_frames E dT ch cu k s
      | Some v \<Rightarrow> addSample E v (ingest_frames E dT ch cu k s))"
  by (simp add: addSample_explicit Let_def split: option.split)

lemma ingest_frames_fields:
  assumes ro: "callback_readonly E"
  shows "cfg (ingest_frames E dT ch cu k s) = cfg s \<and> len (ingest_frames E dT ch cu k s) = len s"
proof (induction k)
  case 0
  show ?case by simp
next
  case (Suc k)
  then show ?case
    unfolding ingest_frames_Suc
    using addSample_fields(1,2) [OF ro]
    by (simp split: option.split)
qed

lemma loop_ingest_prefix:
  assumes ro: "callback_readonly E"
    and rd: "\<forall>i<k. int i * channels (cfg s) < samples \<and>
               dT (int i * channels (cfg s) + uint (channel_used (cfg s))) \<noteq> None"
  shows "processSamples_loop E dT samples 0 s =
         processSamples_loop E dT samples (int k * channels (cfg s))
           (ingest_frames E dT (channels (cfg s)) (uint (channel_used (cfg s))) k s)"
  using rd
proof (induction k)
  case 0
  show ?case by simp
next
  case (Suc k)
  let ?ch = "channels (cfg s)"
  let ?cu = "uint (channel_used (cfg s))"
  let ?t = "ingest_frames E dT ?ch ?cu k s"
  from Suc.prems have rd': "\<forall>i<k. int i * ?ch < samples \<and> dT (int i * ?ch + ?cu) \<noteq> None"
    and lt: "int k * ?ch < samples" and "dT (int k * ?ch + ?cu) \<noteq> None"
    by auto
  then obtain v where v: "dT (int k * ?ch + ?cu) = Some v" by auto
  have ct: "cfg ?t = cfg s"
    using ingest_frames_fields [OF ro] by blast
  have nxt: "ingest_frames E dT ?ch ?cu (Suc k) s = addSample E v ?t"
    unfolding ingest_frames_Suc by (simp add: v)
  have cn: "cfg (addSample E v ?t) = cfg s"
    using addSample_fields(1) [OF ro] ct by simp
  have "processSamples_loop E dT samples 0 s = processSamples_loop E dT samples (int k * ?ch) ?t"
    using Suc.IH [OF rd'] .
  also have "\<dots> = processSamples_loop E dT samples (int k * ?ch + ?ch) (addSample E v ?t)"
    using lt v by (subst processSamples_loop.simps) (simp add: Let_def ct cn)
  also have "int k * ?ch + ?ch = int (Suc k) * ?ch" by (simp add: algebra_simps)
  finally show ?case unfolding nxt .
qed

lemma started_frames_bounds:
  fixes ch samples :: int
  assumes ch: "1 \<le> ch" and s0: "0 \<le> samples"
  defines "n \<equiv> nat ((samples + ch - 1) div ch)"
  shows "samples \<le> int n * ch" and "\<And>i. i < n \<Longrightarrow> int i * ch < samples"
proof -
  let ?x = "samples + ch - 1"
  have x0: "0 \<le> ?x" using ch s0 by simp
  then have q0: "0 \<le> ?x div ch" using ch by (simp add: pos_imp_zdiv_nonneg_iff)
  then have n: "int n = ?x div ch" by (simp add: n_def)
  have dm: "?x div ch * ch + ?x mod ch = ?x" by simp
  have m: "0 \<le> ?x mod ch" "?x mod ch < ch" using ch by simp_all
  from dm m show "samples \<le> int n * ch" unfolding n by linarith
  fix i assume "i < n"
  then have "int i + 1 \<le> ?x div ch" using n by linarith
  then have "(int i + 1) * ch \<le> ?x div ch * ch" using ch by (simp add: mult_right_mono)
  then have "int i * ch + ch \<le> ?x div ch * ch" by (simp add: algebra_simps)
  with dm m show "int i * ch < samples" by linarith
qed

lemma loop_ingest:
  assumes ro: "callback_readonly E" and ch: "1 \<le> channels (cfg s)" and s0: "0 \<le> samples"
    and rd: "\<forall>i. 0 \<le> i \<and> i * channels (cfg s) < samples \<longrightarrow>
               dT (i * channels (cfg s) + uint (channel_used (cfg s))) \<noteq> None"
  shows "processSamples_loop E dT samples 0 s =
         Some (Inr (ingest_frames E dT (channels (cfg s)) (uint (channel_used (cfg s)))
                      (nat ((samples + channels (cfg s) - 1) div channels (cfg s))) s))"
proof -
  let ?ch = "channels (cfg s)"
  let ?cu = "uint (channel_used (cfg s))"
  let ?n = "nat ((samples + ?ch - 1) div ?ch)"
  note b = started_frames_bounds [OF ch s0]
  have pre: "\<forall>i<?n. int i * ?ch < samples \<and> dT (int i * ?ch + ?cu) \<noteq> None"
  proof (intro allI impI)
    fix i assume "i < ?n"
    from b(2) [OF this] have "int i * ?ch < samples" .
    moreover from this rd have "dT (int i * ?ch + ?cu) \<noteq> None" by simp
    ultimately show "int i * ?ch < samples \<and> dT (int i * ?ch + ?cu) \<noteq> None" by simp
  qed
  have "processSamples_loop E dT samples 0 s =
        processSamples_loop E dT samples (int ?n * ?ch) (ingest_frames E dT ?ch ?cu ?n s)"
    by (rule loop_ingest_prefix [OF ro pre])
  also have "\<dots> = Some (Inr (ingest_frames E dT ?ch ?cu ?n s))"
    using b(1) by (subst processSamples_loop.simps) simp
  finally show ?thesis .
qed

lemma reads_inside:
  assumes ch: "1 \<le> ch"
    and cu: "cu < (if int (length data div sizeof T) mod ch = 0 then ch
                   else int (length data div sizeof T) mod ch)"
    and cu0: "0 \<le> cu"
  shows "\<forall>i. 0 \<le> i \<and> i * ch < int (length data div sizeof T) \<longrightarrow>
             dataT T data (i * ch + cu) \<noteq> None"
proof (intro allI impI)
  fix i :: int
  assume i: "0 \<le> i \<and> i * ch < int (length data div sizeof T)"
  then have "i * ch + cu < int (length data div sizeof T)"
    using read_index_inside [OF ch cu, of i] by simp
  moreover have "0 \<le> i * ch + cu" using i ch cu0 by simp
  ultimately show "dataT T data (i * ch + cu) \<noteq> None"
    using dataT_inside [of "i * ch + cu" data T] by auto
qed

lemma write_fft_ingest:
  assumes ro: "callback_readonly E"
    and valid: "isValid (driver E) (p_driver s)"
    and bits: "bits_per_sample (cfg s) = 8 * int (sizeof T)"
    and ch: "1 \<le> channels (cfg s)"
    and cu: "uint (channel_used (cfg s)) <
               (if int (length data div sizeof T) mod channels (cfg s) = 0 then channels (cfg s)
                else int (length data div sizeof T) mod channels (cfg s))"
  shows "write_fft E s data =
     Some (Inr (ingest_frames E (dataT T data) (channels (cfg s)) (uint (channel_used (cfg s)))
                  (nat ((int (length data div sizeof T) + channels (cfg s) - 1)
                          div channels (cfg s))) s,
                length data))"
proof -
  have rd: "\<forall>i. 0 \<le> i \<and> i * channels (cfg s) < int (length data div sizeof T) \<longrightarrow>
             dataT T data (i * channels (cfg s) + uint (channel_used (cfg s))) \<noteq> None"
    by (rule reads_inside [OF ch cu]) simp
  have "processSamples E T s data =
     Some (Inr (ingest_frames E (dataT T data) (channels (cfg s)) (uint (channel_used (cfg s)))
                  (nat ((int (length data div sizeof T) + channels (cfg s) - 1)
                          div channels (cfg s))) s))"
    unfolding processSamples_def Let_def
    by (rule loop_ingest [OF ro ch _ rd]) simp
  then show ?thesis
    using write_fft_supported [OF valid bits, of data] by simp
qed

subsection \<open>The scan for the dominant bin\<close>

lemma result_loop_stop:
  "\<not> j < c_div (len s) 2 \<Longrightarrow> result_loop E s j ret = ret"
  by (subst result_loop.simps) simp

lemma result_loop_step:
  "j < c_div (len s) 2 \<Longrightarrow>
   result_loop E s j ret =
     result_loop E s (j + 1)
       (if magnitude ret < magnitude_fft E s j
        then ret\<lparr>magnitude := magnitude_fft E s j, bin := j\<rparr> else ret)"
  by (subst result_loop.simps) (simp add: Let_def)

lemma best_from_stop: "\<not> j < c_div (len s) 2 \<Longrightarrow> best_from E s j ret ret"
  by (simp add: best_from_def)

lemma best_from_keep:
  assumes "best_from E s (j + 1) ret r" and "\<not> magnitude ret < magnitude_fft E s j"
  shows "best_from E s j ret r"
  unfolding best_from_def
proof (intro conjI allI impI)
  show "magnitude ret \<le> magnitude r" "frequency r = frequency ret"
    using assms(1) by (simp_all add: best_from_def)
  show "magnitude_fft E s i \<le> magnitude r" if "j \<le> i \<and> i < c_div (len s) 2" for i
  proof (cases "i = j")
    case True
    with assms show ?thesis by (simp add: best_from_def)
  next
    case False
    with that have "j + 1 \<le> i \<and> i < c_div (len s) 2" by simp
    with assms(1) show ?thesis unfolding best_from_def by blast
  qed
  show "r = ret \<or>
      j \<le> bin r \<and> bin r < c_div (len s) 2 \<and> magnitude r = magnitude_fft E s (bin r) \<and>
      magnitude ret < magnitude r \<and>
      (\<forall>i. j \<le> i \<and> i < bin r \<longrightarrow> magnitude_fft E s i < magnitude r)"
  proof (cases "r = ret")
    case True
    then show ?thesis by simp
  next
    case False
    with assms(1) have b: "j + 1 \<le> bin r" "bin r < c_div (len s) 2"
      "magnitude r = magnitude_fft E s (bin r)" "magnitude ret < magnitude r"
      and lt: "\<And>i. j + 1 \<le> i \<Longrightarrow> i < bin r \<Longrightarrow> magnitude_fft E s i < magnitude r"
      unfolding best_from_def by blast+
    have "magnitude_fft E s i < magnitude r" if "j \<le> i \<and> i < bin r" for i
    proof (cases "i = j")
      case True
      with assms(2) b(4) show ?thesis by simp
    next
      case False
      with that lt show ?thesis by simp
    qed
    with b show ?thesis by simp
  qed
qed

lemma best_from_take:
  assumes "best_from E s (j + 1) (ret\<lparr>magnitude := magnitude_fft E s j, bin := j\<rparr>) r"
    and "magnitude ret < magnitude_fft E s j" and "j < c_div (len s) 2"
  shows "best_from E s j ret r"
proof -
  let ?t = "ret\<lparr>magnitude := magnitude_fft E s j, bin := j\<rparr>"
  from assms(1) have a: "magnitude_fft E s j \<le> magnitude r" "frequency r = frequency ret"
    and all: "\<And>i. j + 1 \<le> i \<Longrightarrow> i < c_div (len s) 2 \<Longrightarrow> magnitude_fft E s i \<le> magnitude r"
    and dis: "r = ?t \<or>
      j + 1 \<le> bin r \<and> bin r < c_div (len s) 2 \<and> magnitude r = magnitude_fft E s (bin r) \<and>
      magnitude_fft E s j < magnitude r \<and>
      (\<forall>i. j + 1 \<le> i \<and> i < bin r \<longrightarrow> magnitude_fft E s i < magnitude r)"
    unfolding best_from_def by simp_all
  have le: "magnitude_fft E s i \<le> magnitude r" if "j \<le> i \<and> i < c_div (len s) 2" for i
  proof (cases "i = j")
    case True
    with a show ?thesis by simp
  next
    case False
    with that all show ?thesis by simp
  qed
  have second: "j \<le> bin r \<and> bin r < c_div (len s) 2 \<and> magnitude r = magnitude_fft E s (bin r) \<and>
      magnitude ret < magnitude r \<and>
      (\<forall>i. j \<le> i \<and> i < bin r \<longrightarrow> magnitude_fft E s i < magnitude r)"
  proof (cases "r = ?t")
    case True
    then have "bin r = j" "magnitude r = magnitude_fft E s j" by simp_all
    with assms(2,3) show ?thesis by simp
  next
    case False
    with dis have b: "j + 1 \<le> bin r" "bin r < c_div (len s) 2"
      "magnitude r = magnitude_fft E s (bin r)" "magnitude_fft E s j < magnitude r"
      and lt: "\<And>i. j + 1 \<le> i \<Longrightarrow> i < bin r \<Longrightarrow> magnitude_fft E s i < magnitude r"
      by blast+
    have "magnitude_fft E s i < magnitude r" if "j \<le> i \<and> i < bin r" for i
    proof (cases "i = j")
      case True
      with b(4) show ?thesis by simp
    next
      case False
      with that lt show ?thesis by simp
    qed
    moreover have "magnitude ret < magnitude r"
      using assms(2) b(4) by linarith
    ultimately show ?thesis using b by simp
  qed
  from a assms(2) have "magnitude ret \<le> magnitude r" by simp
  with a(2) le second show ?thesis
    unfolding best_from_def by blast
qed

lemma result_loop_best: "best_from E s j ret (result_loop E s j ret)"
proof (induction "nat (c_div (len s) 2 - j)" arbitrary: j ret rule: less_induct)
  case less
  show ?case
  proof (cases "j < c_div (len s) 2")
    case False
    then show ?thesis by (simp add: result_loop_stop best_from_stop)
  next
    case True
    then have dec: "nat (c_div (len s) 2 - (j + 1)) < nat (c_div (len s) 2 - j)" by simp
    show ?thesis
    proof (cases "magnitude ret < magnitude_fft E s j")
      case t: True
      from less.hyps [OF dec, of "ret\<lparr>magnitude := magnitude_fft E s j, bin := j\<rparr>"]
      have "best_from E s j ret
              (result_loop E s (j + 1) (ret\<lparr>magnitude := magnitude_fft E s j, bin := j\<rparr>))"
        using t True by (rule best_from_take)
      then show ?thesis using True t by (simp add: result_loop_step)
    next
      case f: False
      from less.hyps [OF dec, of ret]
      have "best_from E s j ret (result_loop E s (j + 1) ret)"
        using f by (rule best_from_keep)
      then show ?thesis using True f by (simp add: result_loop_step)
    qed
  qed
qed

section \<open>The power of two check and \<open>begin\<close>\<close>

text \<open>
  C10. The check accepts a window length of 0: \<open>isPowerOfTwo 0\<close> holds, and \<open>begin\<close> on
  an object constructed with length 0 does not fail with a configuration error; it
  calls the driver's \<open>begin\<close> with 0, resets the cursor and returns the driver's
  validity.
\<close>

theorem isPowerOfTwo_accepts_zero:
  "isPowerOfTwo 0 \<and>
   begin_fft E (new_AudioFFTBase 0 w) info =
     (\<lparr>p_driver = begin_drv (driver E) 0 w, len = 0, current_pos = 0, cfg = info,
       timestamp = 0\<rparr>,
      isValid (driver E) (begin_drv (driver E) 0 w))"
  by (simp add: isPowerOfTwo_def begin_fft_def new_AudioFFTBase_def Let_def)

text \<open>
  C6. A window length that is not a power of two must make \<open>begin\<close> fail and leave the
  engine unstarted. At the length 0, which is not a power of two, the code does the
  opposite: with the recording driver \<open>begin\<close> starts the engine with length 0 and
  returns true.
\<close>

theorem begin_zero_length_starts_engine:
  "begin_fft (recording silence) (new_AudioFFTBase 0 []) defaultConfig =
     (\<lparr>p_driver = [DrvBegin 0], len = 0, current_pos = 0, cfg = defaultConfig,
       timestamp = 0\<rparr>, True)"
  by (simp add: isPowerOfTwo_def begin_fft_def new_AudioFFTBase_def Let_def recording_def
      recording_driver_def started_def)

text \<open>
  C7, as stated: a \<open>begin\<close> that fails with a configuration error modifies no state of
  the pipeline, the stored configuration included. This fails: with a window of 1000
  and a configuration of 8000 Hz, \<open>begin\<close> returns false and the object is not what it
  was, because the configuration is stored before the length is checked.
\<close>

theorem begin_failed_stores_cfg_counterexample:
  "snd (begin_fft (recording silence) (new_AudioFFTBase 1000 [])
          (defaultConfig\<lparr>sample_rate := 8000\<rparr>)) = False \<and>
   fst (begin_fft (recording silence) (new_AudioFFTBase 1000 [])
          (defaultConfig\<lparr>sample_rate := 8000\<rparr>)) \<noteq> new_AudioFFTBase 1000 []"
  by (simp add: isPowerOfTwo_def begin_fft_def new_AudioFFTBase_def Let_def defaultConfig_def)

text \<open>
  C7, amended: when the length check of \<open>begin\<close> fails, \<open>begin\<close> returns false and the
  object is what it was except for the stored configuration, which is the one passed
  in; the driver is not called, and the cursor, the length and the timestamp keep
  their values.
\<close>

theorem begin_failed_frame:
  assumes "\<not> isPowerOfTwo (word_of_int (len s))"
  shows "begin_fft E s info = (s\<lparr>cfg := info\<rparr>, False)"
  using assms by (simp add: begin_fft_def Let_def)

theorem begin_failed_frame_witness:
  "\<not> isPowerOfTwo (word_of_int (len (new_AudioFFTBase 1000 [] :: (nat, event list) AudioFFTBase))) \<and>
   begin_fft (recording silence) (new_AudioFFTBase 1000 []) (defaultConfig\<lparr>sample_rate := 8000\<rparr>)
     = ((new_AudioFFTBase 1000 [])\<lparr>cfg := defaultConfig\<lparr>sample_rate := 8000\<rparr>\<rparr>, False)"
proof -
  have h: "\<not> isPowerOfTwo (word_of_int (len (new_AudioFFTBase 1000 [] :: (nat, event list) AudioFFTBase)))"
    by (simp add: isPowerOfTwo_def new_AudioFFTBase_def)
  show ?thesis
    using h begin_failed_frame [OF h, of "recording silence" "defaultConfig\<lparr>sample_rate := 8000\<rparr>"]
    by simp
qed

section \<open>The ranked extraction\<close>

text \<open>
  C1. No bin may appear in more than one slot of the array that \<open>resultArray\<close> fills.
  The code breaks this: \<open>InsertSorted\<close> does not stop after the first slot it writes,
  so the candidate is written again into every later slot. On a window of 8 whose
  bins 1, 2, 3 have the magnitudes 3, 2, 1, all three slots hold bin 1.
\<close>

theorem resultArray_duplicates_top_bin:
  "map bin (resultArray (recording decreasing) (new_AudioFFTBase 8 [])
      (replicate 3 \<lparr>bin = 0, magnitude = 0, frequency = None\<rparr>)) = [1, 1, 1]"
  by code_simp

section \<open>The dominant bin\<close>

text \<open>
  C4, as stated: the scan seeds its maximum with the first bin (index 1), so that on
  a window with \<open>len / 2 > 1\<close> the result is one of the bins \<open>1 .. len / 2 - 1\<close>. This
  fails: the code seeds the maximum with magnitude 0 at bin 0, and a bin replaces it
  only with a magnitude above 0. On a silent window of 8 the code returns bin 0, the
  scan seeded with bin 1 returns bin 1.
\<close>

theorem result_fft_seed_counterexample:
  "bin (result_fft (recording silence) (begun 8 mono16)) = 0 \<and>
   bin (dominant_spec (recording silence) (begun 8 mono16)) = 1"
  by code_simp

text \<open>
  C4, amended: the scan covers the bins \<open>1 .. len / 2 - 1\<close> and starts from magnitude 0
  at bin 0. If no scanned bin has a magnitude above 0 (in particular if
  \<open>len / 2 \<le> 1\<close>) the result is bin 0 with magnitude 0. Otherwise the result is a
  scanned bin, it carries that bin's magnitude, no scanned bin has a greater one and
  every scanned bin before it has a smaller one (ties keep the lowest index). A single
  peak above 0 at bin \<open>k\<close> gives bin \<open>k\<close>. The result carries the frequency of its bin.
\<close>

theorem result_fft_dominant:
  "((\<forall>j. 1 \<le> j \<and> j < c_div (len s) 2 \<longrightarrow> magnitude_fft E s j \<le> 0) \<longrightarrow>
      bin (result_fft E s) = 0 \<and> magnitude (result_fft E s) = 0) \<and>
   ((\<exists>j. 1 \<le> j \<and> j < c_div (len s) 2 \<and> 0 < magnitude_fft E s j) \<longrightarrow>
      1 \<le> bin (result_fft E s) \<and> bin (result_fft E s) < c_div (len s) 2 \<and>
      magnitude (result_fft E s) = magnitude_fft E s (bin (result_fft E s)) \<and>
      (\<forall>j. 1 \<le> j \<and> j < c_div (len s) 2 \<longrightarrow> magnitude_fft E s j \<le> magnitude (result_fft E s)) \<and>
      (\<forall>j. 1 \<le> j \<and> j < bin (result_fft E s) \<longrightarrow>
           magnitude_fft E s j < magnitude (result_fft E s))) \<and>
   (\<forall>k. 1 \<le> k \<and> k < c_div (len s) 2 \<and> 0 < magnitude_fft E s k \<and>
        (\<forall>j. 1 \<le> j \<and> j < c_div (len s) 2 \<and> j \<noteq> k \<longrightarrow> magnitude_fft E s j < magnitude_fft E s k)
        \<longrightarrow> bin (result_fft E s) = k) \<and>
   frequency (result_fft E s) = frequency_fft s (bin (result_fft E s))"
proof -
  let ?h = "c_div (len s) 2"
  let ?z = "\<lparr>bin = 0, magnitude = 0, frequency = None\<rparr>"
  let ?lp = "result_loop E s 1 ?z"
  let ?r = "result_fft E s"
  have b: "bin ?r = bin ?lp" and m: "magnitude ?r = magnitude ?lp"
    and f: "frequency ?r = frequency_fft s (bin ?r)"
    by (simp_all add: result_fft_def Let_def)
  have bf: "best_from E s 1 ?z ?lp" by (rule result_loop_best)
  then have ge: "\<And>i. 1 \<le> i \<Longrightarrow> i < ?h \<Longrightarrow> magnitude_fft E s i \<le> magnitude ?lp"
    and dis: "?lp = ?z \<or>
      1 \<le> bin ?lp \<and> bin ?lp < ?h \<and> magnitude ?lp = magnitude_fft E s (bin ?lp) \<and>
      0 < magnitude ?lp \<and>
      (\<forall>i. 1 \<le> i \<and> i < bin ?lp \<longrightarrow> magnitude_fft E s i < magnitude ?lp)"
    unfolding best_from_def by simp_all
  have p1: "bin ?r = 0 \<and> magnitude ?r = 0"
    if all: "\<forall>j. 1 \<le> j \<and> j < ?h \<longrightarrow> magnitude_fft E s j \<le> 0"
  proof -
    have "?lp = ?z"
    proof (rule ccontr)
      assume "?lp \<noteq> ?z"
      with dis have "1 \<le> bin ?lp \<and> bin ?lp < ?h" "magnitude ?lp = magnitude_fft E s (bin ?lp)"
        "0 < magnitude ?lp" by blast+
      with all show False by fastforce
    qed
    then have "bin ?lp = 0" "magnitude ?lp = 0" by simp_all
    with b m show ?thesis by simp
  qed
  have p2: "1 \<le> bin ?r \<and> bin ?r < ?h \<and> magnitude ?r = magnitude_fft E s (bin ?r) \<and>
      (\<forall>j. 1 \<le> j \<and> j < ?h \<longrightarrow> magnitude_fft E s j \<le> magnitude ?r) \<and>
      (\<forall>j. 1 \<le> j \<and> j < bin ?r \<longrightarrow> magnitude_fft E s j < magnitude ?r)"
    if ex: "\<exists>j. 1 \<le> j \<and> j < ?h \<and> 0 < magnitude_fft E s j"
  proof -
    from ex obtain j where j: "1 \<le> j" "j < ?h" "0 < magnitude_fft E s j" by blast
    from ge [OF j(1,2)] j(3) have "0 < magnitude ?lp" by linarith
    then have "?lp \<noteq> ?z" by auto
    with dis have "1 \<le> bin ?lp \<and> bin ?lp < ?h \<and> magnitude ?lp = magnitude_fft E s (bin ?lp) \<and>
      (\<forall>i. 1 \<le> i \<and> i < bin ?lp \<longrightarrow> magnitude_fft E s i < magnitude ?lp)" by blast
    with ge show ?thesis unfolding b m by blast
  qed
  have p3: "bin ?r = k"
    if pk: "1 \<le> k \<and> k < ?h \<and> 0 < magnitude_fft E s k \<and>
        (\<forall>j. 1 \<le> j \<and> j < ?h \<and> j \<noteq> k \<longrightarrow> magnitude_fft E s j < magnitude_fft E s k)" for k
  proof (rule ccontr)
    assume ne: "bin ?r \<noteq> k"
    from pk have "\<exists>j. 1 \<le> j \<and> j < ?h \<and> 0 < magnitude_fft E s j" by blast
    from p2 [OF this] have r: "1 \<le> bin ?r" "bin ?r < ?h"
      "magnitude ?r = magnitude_fft E s (bin ?r)"
      and le: "magnitude_fft E s k \<le> magnitude ?r" using pk by blast+
    from pk r(1,2) ne have "magnitude_fft E s (bin ?r) < magnitude_fft E s k" by blast
    with le r(3) show False by linarith
  qed
  from p1 p2 p3 f show ?thesis by blast
qed

text \<open>
  The scenario of the specification: a window of 8 at 8000 Hz with a tone at bin 2
  gives bin 2 and 2000 Hz; a silent window gives bin 0.
\<close>

theorem result_fft_dominant_witness:
  "bin (result_fft (recording silence) (begun 8 mono16)) = 0 \<and>
   magnitude (result_fft (recording silence) (begun 8 mono16)) = 0 \<and>
   bin (result_fft (recording tone2) (begun 8 mono16)) = 2 \<and>
   magnitude (result_fft (recording tone2) (begun 8 mono16)) = 5 \<and>
   frequency (result_fft (recording tone2) (begun 8 mono16)) = Some 2000"
proof -
  have h: "c_div (len (begun 8 mono16)) 2 = 4"
    by (simp add: c_div_def begun_def)
  have m: "magnitude_fft (recording f) (begun 8 mono16) j = f j" for f j
    by (simp add: magnitude_fft_def recording_def recording_driver_def)
  have quiet: "\<forall>j. 1 \<le> j \<and> j < c_div (len (begun 8 mono16)) 2 \<longrightarrow>
                 magnitude_fft (recording silence) (begun 8 mono16) j \<le> 0"
    by (simp add: m silence_def)
  have peak: "1 \<le> (2::int) \<and> 2 < c_div (len (begun 8 mono16)) 2 \<and>
      0 < magnitude_fft (recording tone2) (begun 8 mono16) 2 \<and>
      (\<forall>j. 1 \<le> j \<and> j < c_div (len (begun 8 mono16)) 2 \<and> j \<noteq> 2 \<longrightarrow>
           magnitude_fft (recording tone2) (begun 8 mono16) j
             < magnitude_fft (recording tone2) (begun 8 mono16) 2)"
    by (simp add: h m tone2_def)
  from result_fft_dominant [of "begun 8 mono16" "recording silence"] quiet
  have a: "bin (result_fft (recording silence) (begun 8 mono16)) = 0 \<and>
           magnitude (result_fft (recording silence) (begun 8 mono16)) = 0"
    by blast
  from result_fft_dominant [of "begun 8 mono16" "recording tone2"] peak
  have b: "bin (result_fft (recording tone2) (begun 8 mono16)) = 2"
    and mg: "magnitude (result_fft (recording tone2) (begun 8 mono16)) =
             magnitude_fft (recording tone2) (begun 8 mono16)
               (bin (result_fft (recording tone2) (begun 8 mono16)))"
    and fr: "frequency (result_fft (recording tone2) (begun 8 mono16)) =
             frequency_fft (begun 8 mono16) (bin (result_fft (recording tone2) (begun 8 mono16)))"
    by blast+
  have "magnitude (result_fft (recording tone2) (begun 8 mono16)) = 5"
    unfolding mg b by (simp add: m tone2_def)
  moreover have "frequency (result_fft (recording tone2) (begun 8 mono16)) = Some 2000"
    unfolding fr b by (simp add: frequency_fft_def begun_def mono16_def)
  ultimately show ?thesis using a b by blast
qed

section \<open>Ingesting bytes\<close>

text \<open>
  C2, as stated: with an unsupported bit depth \<open>write\<close> returns 0. This fails: with a
  valid engine and 8 bit samples nothing is ingested, the object is unchanged, and the
  call returns the full byte count 6.
\<close>

theorem write_fft_unsupported_count_counterexample:
  "isValid (driver (recording silence)) (p_driver (begun 4 mono8)) \<and>
   bits_per_sample (cfg (begun 4 mono8)) = 8 \<and>
   write_fft (recording silence) (begun 4 mono8) [1, 0, 2, 0, 3, 0] = Some (Inr (begun 4 mono8, 6)) \<and>
   write_fft (recording silence) (begun 4 mono8) [1, 0, 2, 0, 3, 0] \<noteq> Some (Inr (begun 4 mono8, 0))"
  by (simp add: write_fft_def begun_def mono8_def recording_def recording_driver_def started_def)

text \<open>
  C2, amended: with an invalid engine \<open>write\<close> ingests nothing and returns 0. With a
  valid engine and an unsupported bit depth it ingests nothing, leaves the object as
  it was and returns the full byte count. The supported depths 16, 24 and 32 are the
  depths \<open>8 * sizeof T\<close>; with a valid engine and such a depth (at least one channel, a
  callback that leaves the object alone, the used channel inside every started frame)
  the call returns the full byte count and has ingested the started frames of the
  buffer one by one: the object it leaves is the one \<open>ingest_frames\<close> describes.
\<close>

theorem write_fft_returned_count:
  "(\<not> isValid (driver E) (p_driver s) \<longrightarrow> write_fft E s data = Some (Inr (s, 0))) \<and>
   (isValid (driver E) (p_driver s) \<and> bits_per_sample (cfg s) \<notin> {16, 24, 32} \<longrightarrow>
      write_fft E s data = Some (Inr (s, length data))) \<and>
   (bits_per_sample (cfg s) \<in> {16, 24, 32} \<longleftrightarrow>
      (\<exists>T. bits_per_sample (cfg s) = 8 * int (sizeof T))) \<and>
   (isValid (driver E) (p_driver s) \<and> bits_per_sample (cfg s) = 8 * int (sizeof T) \<and>
    callback_readonly E \<and> 1 \<le> channels (cfg s) \<and>
    uint (channel_used (cfg s)) <
      (if int (length data div sizeof T) mod channels (cfg s) = 0 then channels (cfg s)
       else int (length data div sizeof T) mod channels (cfg s)) \<longrightarrow>
      write_fft E s data =
        Some (Inr (ingest_frames E (dataT T data) (channels (cfg s))
                     (uint (channel_used (cfg s)))
                     (nat ((int (length data div sizeof T) + channels (cfg s) - 1)
                             div channels (cfg s))) s,
                   length data)))"
proof (intro conjI impI)
  assume "\<not> isValid (driver E) (p_driver s)"
  then show "write_fft E s data = Some (Inr (s, 0))" by (rule write_fft_invalid)
next
  assume "isValid (driver E) (p_driver s) \<and> bits_per_sample (cfg s) \<notin> {16, 24, 32}"
  then show "write_fft E s data = Some (Inr (s, length data))"
    by (simp add: write_fft_unsupported)
next
  show "bits_per_sample (cfg s) \<in> {16, 24, 32} \<longleftrightarrow>
      (\<exists>T. bits_per_sample (cfg s) = 8 * int (sizeof T))"
  proof
    assume "bits_per_sample (cfg s) \<in> {16, 24, 32}"
    then show "\<exists>T. bits_per_sample (cfg s) = 8 * int (sizeof T)"
      by (rule supported_sample_type)
  next
    assume "\<exists>T. bits_per_sample (cfg s) = 8 * int (sizeof T)"
    then obtain T where "bits_per_sample (cfg s) = 8 * int (sizeof T)" ..
    then show "bits_per_sample (cfg s) \<in> {16, 24, 32}" by (cases T) simp_all
  qed
next
  assume a: "isValid (driver E) (p_driver s) \<and> bits_per_sample (cfg s) = 8 * int (sizeof T) \<and>
    callback_readonly E \<and> 1 \<le> channels (cfg s) \<and>
    uint (channel_used (cfg s)) <
      (if int (length data div sizeof T) mod channels (cfg s) = 0 then channels (cfg s)
       else int (length data div sizeof T) mod channels (cfg s))"
  then show "write_fft E s data =
        Some (Inr (ingest_frames E (dataT T data) (channels (cfg s))
                     (uint (channel_used (cfg s)))
                     (nat ((int (length data div sizeof T) + channels (cfg s) - 1)
                             div channels (cfg s))) s,
                   length data))"
    by (intro write_fft_ingest) simp_all
qed

text \<open>
  The three cases on the recording driver; in the third, five 16 bit samples go into a
  window of 4: four stores, the transform, the callback, and the fifth store in slot 0.
\<close>

theorem write_fft_returned_count_witness:
  "write_fft (recording silence) (new_AudioFFTBase 4 []) [1, 0] = Some (Inr (new_AudioFFTBase 4 [], 0)) \<and>
   write_fft (recording silence) (begun 4 mono8) [1, 0] = Some (Inr (begun 4 mono8, 2)) \<and>
   write_fft (recording silence) (begun 4 mono16) [1, 0, 2, 0, 3, 0, 4, 0, 5, 0] =
     Some (Inr (\<lparr>p_driver = [DrvBegin 4, DrvSetValue 0 1, DrvSetValue 1 2, DrvSetValue 2 3,
                             DrvSetValue 3 4, DrvFft, Called 7, DrvSetValue 0 5],
                 len = 4, current_pos = 1, cfg = mono16, timestamp = 6\<rparr>, 10))"
proof -
  let ?d = "[1, 0, 2, 0, 3, 0, 4, 0, 5, 0 :: 8 word]"
  have v0: "\<not> isValid (driver (recording silence))
               (p_driver (new_AudioFFTBase 4 [] :: (nat, event list) AudioFFTBase))"
    by (simp add: new_AudioFFTBase_def recording_def recording_driver_def started_def)
  have v: "isValid (driver (recording silence)) (p_driver (begun 4 c))" for c
    by (simp add: begun_def recording_def recording_driver_def started_def)
  have b8: "bits_per_sample (cfg (begun 4 mono8)) \<notin> {16, 24, 32}"
    by (simp add: begun_def mono8_def)
  have b16: "bits_per_sample (cfg (begun 4 mono16)) = 8 * int (sizeof Int16)"
    by (simp add: begun_def mono16_def)
  have ro: "callback_readonly (recording silence)"
    by (simp add: callback_readonly_def recording_def)
  have ch: "1 \<le> channels (cfg (begun 4 mono16))"
    by (simp add: begun_def mono16_def)
  have cu: "uint (channel_used (cfg (begun 4 mono16))) <
      (if int (length ?d div sizeof Int16) mod channels (cfg (begun 4 mono16)) = 0
       then channels (cfg (begun 4 mono16))
       else int (length ?d div sizeof Int16) mod channels (cfg (begun 4 mono16)))"
    by (simp add: begun_def mono16_def)
  from write_fft_returned_count [of "recording silence" "new_AudioFFTBase 4 []" "[1, 0]"] v0
  have a: "write_fft (recording silence) (new_AudioFFTBase 4 []) [1, 0]
             = Some (Inr (new_AudioFFTBase 4 [], 0))"
    by blast
  from write_fft_returned_count [of "recording silence" "begun 4 mono8" "[1, 0]"] v b8
  have b: "write_fft (recording silence) (begun 4 mono8) [1, 0] = Some (Inr (begun 4 mono8, 2))"
    by simp
  have ev: "ingest_frames (recording silence) (dataT Int16 ?d) (channels (cfg (begun 4 mono16)))
              (uint (channel_used (cfg (begun 4 mono16))))
              (nat ((int (10 div sizeof Int16) + channels (cfg (begun 4 mono16)) - 1)
                      div channels (cfg (begun 4 mono16)))) (begun 4 mono16)
            = \<lparr>p_driver = [DrvBegin 4, DrvSetValue 0 1, DrvSetValue 1 2, DrvSetValue 2 3,
                            DrvSetValue 3 4, DrvFft, Called 7, DrvSetValue 0 5],
                len = 4, current_pos = 1, cfg = mono16, timestamp = 6\<rparr>"
    by code_simp
  have l10: "length ?d = 10" by simp
  from write_fft_returned_count [of "recording silence" "begun 4 mono16" ?d Int16] v b16 ro ch cu
  have "write_fft (recording silence) (begun 4 mono16) ?d =
        Some (Inr (ingest_frames (recording silence) (dataT Int16 ?d) (channels (cfg (begun 4 mono16)))
              (uint (channel_used (cfg (begun 4 mono16))))
              (nat ((int (length ?d div sizeof Int16) + channels (cfg (begun 4 mono16)) - 1)
                      div channels (cfg (begun 4 mono16)))) (begun 4 mono16), length ?d))"
    by blast
  then have c: "write_fft (recording silence) (begun 4 mono16) ?d =
     Some (Inr (\<lparr>p_driver = [DrvBegin 4, DrvSetValue 0 1, DrvSetValue 1 2, DrvSetValue 2 3,
                             DrvSetValue 3 4, DrvFft, Called 7, DrvSetValue 0 5],
                 len = 4, current_pos = 1, cfg = mono16, timestamp = 6\<rparr>, 10))"
    unfolding l10 ev .
  from a b c show ?thesis by blast
qed

text \<open>
  C3, as stated: a trailing partial frame contributes no sample to the window. This
  fails: with two channels of 16 bit samples, 6 bytes are one frame and a half; the
  loop runs once more for the half frame and stores its sample 3 in slot 1, so the
  cursor ends at 2, where the 4 bytes of the complete frame alone leave it at 1.
\<close>

theorem write_fft_partial_frame_counterexample:
  "write_fft (recording silence) (begun 4 stereo16) [1, 0, 2, 0, 3, 0] =
     Some (Inr ((begun 4 stereo16)
                  \<lparr>p_driver := [DrvBegin 4, DrvSetValue 0 1, DrvSetValue 1 3], current_pos := 2\<rparr>, 6)) \<and>
   write_fft (recording silence) (begun 4 stereo16) [1, 0, 2, 0] =
     Some (Inr ((begun 4 stereo16)
                  \<lparr>p_driver := [DrvBegin 4, DrvSetValue 0 1], current_pos := 1\<rparr>, 4))"
  by code_simp

text \<open>
  C3, amended: \<open>write\<close> buffers one sample for every frame that starts inside the whole
  samples of the buffer, a trailing partial frame with at least one whole sample
  included: the call returns the byte count and leaves the object that \<open>ingest_frames\<close>
  describes for the number of samples divided by the channel count and rounded up
  (each of these frames has its sample written to the driver at the cursor), and the
  cursor has advanced by that number modulo the window length. Only the trailing
  bytes that do not make up a whole sample contribute nothing: the call on the buffer
  cut after its last whole sample leaves the same object, so nothing of them is kept
  for the next call. This is stated for the calls whose reads stay inside the buffer
  (the used channel lies inside the trailing partial frame).
\<close>

theorem write_fft_started_frames:
  assumes ro: "callback_readonly E"
    and valid: "isValid (driver E) (p_driver s)"
    and bits: "bits_per_sample (cfg s) = 8 * int (sizeof T)"
    and ch: "1 \<le> channels (cfg s)"
    and pos: "0 \<le> current_pos s" "current_pos s < len s"
    and cu: "uint (channel_used (cfg s)) <
               (if int (length data div sizeof T) mod channels (cfg s) = 0 then channels (cfg s)
                else int (length data div sizeof T) mod channels (cfg s))"
  shows "write_fft E s data =
           Some (Inr (ingest_frames E (dataT T data) (channels (cfg s))
                        (uint (channel_used (cfg s)))
                        (nat ((int (length data div sizeof T) + channels (cfg s) - 1)
                                div channels (cfg s))) s,
                      length data)) \<and>
         write_fft E s (take (length data div sizeof T * sizeof T) data) =
           Some (Inr (ingest_frames E (dataT T data) (channels (cfg s))
                        (uint (channel_used (cfg s)))
                        (nat ((int (length data div sizeof T) + channels (cfg s) - 1)
                                div channels (cfg s))) s,
                      length data div sizeof T * sizeof T)) \<and>
         current_pos (ingest_frames E (dataT T data) (channels (cfg s))
                        (uint (channel_used (cfg s)))
                        (nat ((int (length data div sizeof T) + channels (cfg s) - 1)
                                div channels (cfg s))) s) =
           (current_pos s +
              (int (length data div sizeof T) + channels (cfg s) - 1) div channels (cfg s))
           mod len s"
proof -
  let ?samples = "int (length data div sizeof T)"
  let ?ch = "channels (cfg s)"
  let ?cut = "take (length data div sizeof T * sizeof T) data"
  let ?S = "ingest_frames E (dataT T data) ?ch (uint (channel_used (cfg s)))
              (nat ((?samples + ?ch - 1) div ?ch)) s"
  have w: "write_fft E s data = Some (Inr (?S, length data))"
    by (rule write_fft_ingest [OF ro valid bits ch cu])
  then have p: "processSamples E T s data = Some (Inr ?S)"
    using write_fft_supported [OF valid bits, of data]
    by (cases "processSamples E T s data") (auto simp: map_sum_def split: sum.splits)
  then have lp: "processSamples_loop E (dataT T data) ?samples 0 s = Some (Inr ?S)"
    by (simp add: processSamples_def Let_def)
  have "processSamples E T s ?cut = Some (Inr ?S)"
    unfolding processSamples_def Let_def dataT_take samples_take using lp .
  moreover have "length ?cut = length data div sizeof T * sizeof T" by simp
  ultimately have c: "write_fft E s ?cut = Some (Inr (?S, length data div sizeof T * sizeof T))"
    using write_fft_supported [OF valid bits, of ?cut] by simp
  from loop_returns [OF ro ch, of "dataT T data" ?samples 0] lp pos
  have "current_pos ?S = (current_pos s + frames_from ?ch ?samples 0) mod len s"
    by auto
  moreover have "frames_from ?ch ?samples 0 = (?samples + ?ch - 1) div ?ch"
    using ch by (simp add: frames_from_zero)
  ultimately show ?thesis using w c by simp
qed

text \<open>
  Seven bytes for two channels of 16 bit samples: three samples and one stray byte,
  two started frames. The driver receives the samples 1 and 3 in the slots 0 and 1,
  with and without the stray byte.
\<close>

theorem write_fft_started_frames_witness:
  "write_fft (recording silence) (begun 4 stereo16) [1, 0, 2, 0, 3, 0, 9] =
     Some (Inr (\<lparr>p_driver = [DrvBegin 4, DrvSetValue 0 1, DrvSetValue 1 3], len = 4,
                 current_pos = 2, cfg = stereo16, timestamp = 0\<rparr>, 7)) \<and>
   write_fft (recording silence) (begun 4 stereo16) [1, 0, 2, 0, 3, 0] =
     Some (Inr (\<lparr>p_driver = [DrvBegin 4, DrvSetValue 0 1, DrvSetValue 1 3], len = 4,
                 current_pos = 2, cfg = stereo16, timestamp = 0\<rparr>, 6))"
proof -
  let ?d = "[1, 0, 2, 0, 3, 0, 9 :: 8 word]"
  let ?s = "begun 4 stereo16"
  have ro: "callback_readonly (recording silence)"
    by (simp add: callback_readonly_def recording_def)
  have v: "isValid (driver (recording silence)) (p_driver ?s)"
    by (simp add: begun_def recording_def recording_driver_def started_def)
  have b: "bits_per_sample (cfg ?s) = 8 * int (sizeof Int16)"
    by (simp add: begun_def stereo16_def)
  have ch: "1 \<le> channels (cfg ?s)"
    by (simp add: begun_def stereo16_def)
  have p0: "0 \<le> current_pos ?s" and p1: "current_pos ?s < len ?s"
    by (simp_all add: begun_def)
  have cu: "uint (channel_used (cfg ?s)) <
               (if int (length ?d div sizeof Int16) mod channels (cfg ?s) = 0
                then channels (cfg ?s)
                else int (length ?d div sizeof Int16) mod channels (cfg ?s))"
    by (simp add: begun_def stereo16_def)
  have ev: "ingest_frames (recording silence) (dataT Int16 ?d) (channels (cfg ?s))
              (uint (channel_used (cfg ?s)))
              (nat ((int (7 div sizeof Int16) + channels (cfg ?s) - 1)
                      div channels (cfg ?s))) ?s
            = \<lparr>p_driver = [DrvBegin 4, DrvSetValue 0 1, DrvSetValue 1 3], len = 4,
                current_pos = 2, cfg = stereo16, timestamp = 0\<rparr>"
    by code_simp
  have e1: "length ?d = 7" by simp
  have e2: "7 div sizeof Int16 * sizeof Int16 = 6" by simp
  have e3: "take 6 ?d = [1, 0, 2, 0, 3, 0]" by simp
  from write_fft_started_frames [OF ro v b ch p0 p1 cu]
  show ?thesis unfolding e1 ev e2 e3 by blast
qed

section \<open>A full window\<close>

text \<open>
  C5. After a successful \<open>begin\<close> on a window of \<open>len \<ge> 1\<close>, with a depth of 16, 24 or
  32 bits (\<open>8 * sizeof T\<close>), at least one channel and the used channel among them,
  writing exactly \<open>len\<close> frames returns the full byte count and leaves this object:
  the driver has received the \<open>len\<close> samples of the used channel in the slots
  \<open>0 .. len - 1\<close>, then one transform; the cursor is 0; the timestamp is the clock read
  after the transform; and the callback, if there is one, has been called once, last,
  on the object in that state. The callback is one that leaves the object alone.
\<close>

theorem write_full_window:
  assumes ro: "callback_readonly E"
    and bg: "begin_fft E s0 info = (s, True)"
    and ln: "0 < len s"
    and bits: "bits_per_sample info = 8 * int (sizeof T)"
    and ch: "1 \<le> channels info"
    and cu: "uint (channel_used info) < channels info"
    and dl: "length data = nat (len s) * nat (channels info) * sizeof T"
  shows "write_fft E s data =
     Some (Inr
       (let w1 = load (driver E) (dataT T data) (channels info) (uint (channel_used info))
                   (nat (len s)) (p_driver s);
            w2 = fft_drv (driver E) w1;
            s3 = s\<lparr>p_driver := w2, current_pos := 0, timestamp := millis E w2\<rparr>
        in case callback info of None \<Rightarrow> s3 | Some c \<Rightarrow> call E c s3,
        length data))"
proof -
  note b = begin_fft_True [OF bg]
  let ?samples = "int (length data div sizeof T)"
  have smp: "?samples = len s * channels (cfg s)"
    using sizeof_pos [of T] ln ch by (simp add: dl b(1))
  have rd: "\<forall>idx. 0 \<le> idx \<and> idx < ?samples \<longrightarrow> dataT T data idx \<noteq> None"
    using dataT_inside [of _ data T] by fastforce
  have loop: "processSamples E T s data =
      Some (Inr (fft E
        (s\<lparr>p_driver := load (driver E) (dataT T data) (channels (cfg s))
                            (uint (channel_used (cfg s))) (nat (len s)) (p_driver s),
           current_pos := len s\<rparr>)))"
    unfolding processSamples_def Let_def
    by (rule loop_full_window [OF ro b(3) ln _ _ smp rd]) (use ch cu b(1) in simp_all)
  have sel: "write_fft E s data =
      map_option (map_sum id (\<lambda>s'. (s', length data))) (processSamples E T s data)"
    using b(4) bits by (cases T) (simp_all add: write_fft_def Let_def b(1))
  show ?thesis
    unfolding sel loop by (simp add: fft_def Let_def b(1) split: option.split)
qed

text \<open>
  On the recording driver, a window of 4 and four 16 bit samples: the log shows the
  four stores, one transform and one call of the callback, in this order.
\<close>

theorem write_full_window_witness:
  "callback_readonly (recording silence) \<and>
   begin_fft (recording silence) (new_AudioFFTBase 4 []) mono16 = (begun 4 mono16, True) \<and>
   0 < len (begun 4 mono16) \<and>
   bits_per_sample mono16 = 8 * int (sizeof Int16) \<and>
   1 \<le> channels mono16 \<and> uint (channel_used mono16) < channels mono16 \<and>
   length [1, 0, 2, 0, 3, 0, 255, 255 :: 8 word]
     = nat (len (begun 4 mono16)) * nat (channels mono16) * sizeof Int16 \<and>
   write_fft (recording silence) (begun 4 mono16) [1, 0, 2, 0, 3, 0, 255, 255] =
     Some (Inr (\<lparr>p_driver = [DrvBegin 4, DrvSetValue 0 1, DrvSetValue 1 2, DrvSetValue 2 3,
                             DrvSetValue 3 (- 1), DrvFft, Called 7],
                 len = 4, current_pos = 0, cfg = mono16, timestamp = 6\<rparr>, 8))"
proof -
  have h1: "callback_readonly (recording silence)"
    by (simp add: callback_readonly_def recording_def)
  have h2: "begin_fft (recording silence) (new_AudioFFTBase 4 []) mono16 = (begun 4 mono16, True)"
    by (simp add: begin_fft_def new_AudioFFTBase_def begun_def isPowerOfTwo_def Let_def
        recording_def recording_driver_def started_def)
  have h3: "0 < len (begun 4 mono16)" by (simp add: begun_def)
  have h4: "bits_per_sample mono16 = 8 * int (sizeof Int16)" by (simp add: mono16_def)
  have h5: "1 \<le> channels mono16" by (simp add: mono16_def)
  have h6: "uint (channel_used mono16) < channels mono16" by (simp add: mono16_def)
  have h7: "length [1, 0, 2, 0, 3, 0, 255, 255 :: 8 word]
     = nat (len (begun 4 mono16)) * nat (channels mono16) * sizeof Int16"
    by (simp add: begun_def mono16_def)
  have ld: "load (driver (recording silence)) (dataT Int16 [1, 0, 2, 0, 3, 0, 255, 255])
        (channels mono16) (uint (channel_used mono16)) (nat (len (begun 4 mono16)))
        (p_driver (begun 4 mono16))
     = [DrvBegin 4, DrvSetValue 0 1, DrvSetValue 1 2, DrvSetValue 2 3, DrvSetValue 3 (- 1)]"
    by code_simp
  have "write_fft (recording silence) (begun 4 mono16) [1, 0, 2, 0, 3, 0, 255, 255] =
     Some (Inr (\<lparr>p_driver = [DrvBegin 4, DrvSetValue 0 1, DrvSetValue 1 2, DrvSetValue 2 3,
                             DrvSetValue 3 (- 1), DrvFft, Called 7],
                 len = 4, current_pos = 0, cfg = mono16, timestamp = 6\<rparr>, 8))"
    using write_full_window [OF h1 h2 h3 h4 h5 h6 h7] unfolding ld
    by (simp add: Let_def begun_def mono16_def recording_def recording_driver_def)
  with h1 h2 h3 h4 h5 h6 h7 show ?thesis by blast
qed

section \<open>The fill cursor\<close>

text \<open>
  C9. The cursor is 0 after a successful \<open>begin\<close>; \<open>begin\<close> either resets it or, when
  the length check fails, leaves it, and \<open>end\<close> leaves it; it is 0 after the transform
  trigger; and a \<open>write\<close> on an object whose cursor lies in \<open>[0, len)\<close> returns and, when
  it returns normally, leaves the length as it was and the cursor in \<open>[0, len)\<close>. The
  callback is one that leaves the object alone and there is at least one channel.
\<close>

theorem current_pos_invariant:
  "(snd (begin_fft E s info) \<longrightarrow> current_pos (fst (begin_fft E s info)) = 0) \<and>
   current_pos (fst (begin_fft E s info)) =
     (if isPowerOfTwo (word_of_int (len s)) then 0 else current_pos s) \<and>
   current_pos (end_fft E s) = current_pos s \<and>
   (callback_readonly E \<longrightarrow> current_pos (fft E s) = 0) \<and>
   (callback_readonly E \<and> 1 \<le> channels (cfg s) \<and> 0 \<le> current_pos s \<and> current_pos s < len s \<longrightarrow>
      (\<exists>r. write_fft E s data = Some r \<and>
           (\<forall>s' n. r = Inr (s', n) \<longrightarrow>
              len s' = len s \<and> 0 \<le> current_pos s' \<and> current_pos s' < len s')))"
proof (intro conjI impI)
  show "current_pos (fst (begin_fft E s info)) =
     (if isPowerOfTwo (word_of_int (len s)) then 0 else current_pos s)"
    by (simp add: begin_fft_def Let_def)
  show "current_pos (fst (begin_fft E s info)) = 0" if "snd (begin_fft E s info)"
    using that by (simp add: begin_fft_def Let_def split: if_splits)
  show "current_pos (end_fft E s) = current_pos s"
    by (simp add: end_fft_def)
  show "current_pos (fft E s) = 0" if "callback_readonly E"
    using that by (rule fft_fields)
next
  assume a: "callback_readonly E \<and> 1 \<le> channels (cfg s) \<and> 0 \<le> current_pos s \<and> current_pos s < len s"
  then have ro: "callback_readonly E" and ch: "1 \<le> channels (cfg s)"
    and pos: "0 \<le> current_pos s \<and> current_pos s < len s" by simp_all
  have ln: "0 < len s" using pos by simp
  have inv: "\<exists>r. processSamples E T s data = Some r \<and>
               (\<forall>s'. r = Inr s' \<longrightarrow> len s' = len s \<and> 0 \<le> current_pos s' \<and> current_pos s' < len s')"
    for T
  proof -
    from loop_returns [OF ro ch, of "dataT T data" "int (length data div sizeof T)" 0]
    obtain r where r: "processSamples E T s data = Some r"
      and rr: "\<And>s'. r = Inr s' \<Longrightarrow> len s' = len s \<and>
           current_pos s' = (current_pos s
              + frames_from (channels (cfg s)) (int (length data div sizeof T)) 0) mod len s"
      using pos by (auto simp: processSamples_def Let_def)
    have "len s' = len s \<and> 0 \<le> current_pos s' \<and> current_pos s' < len s'" if "r = Inr s'" for s'
      using rr [OF that] ln by simp
    with r show ?thesis by blast
  qed
  show "\<exists>r. write_fft E s data = Some r \<and>
           (\<forall>s' n. r = Inr (s', n) \<longrightarrow>
              len s' = len s \<and> 0 \<le> current_pos s' \<and> current_pos s' < len s')"
  proof (cases "isValid (driver E) (p_driver s)")
    case False
    then show ?thesis using pos by (simp add: write_fft_invalid)
  next
    case True
    show ?thesis
    proof (cases "bits_per_sample (cfg s) \<in> {16, 24, 32}")
      case False
      with True show ?thesis using pos by (simp add: write_fft_unsupported)
    next
      case b: True
      then obtain T where T: "bits_per_sample (cfg s) = 8 * int (sizeof T)"
        using supported_sample_type by blast
      from inv [of T] obtain r where r: "processSamples E T s data = Some r"
        and rr: "\<And>s'. r = Inr s' \<Longrightarrow> len s' = len s \<and> 0 \<le> current_pos s' \<and> current_pos s' < len s'"
        by blast
      have "write_fft E s data = Some (map_sum id (\<lambda>s'. (s', length data)) r)"
        using write_fft_supported [OF True T, of data] r by simp
      moreover have "len s' = len s \<and> 0 \<le> current_pos s' \<and> current_pos s' < len s'"
        if "map_sum id (\<lambda>s'. (s', length data)) r = Inr (s', n)" for s' n
        using that rr by (cases r) auto
      ultimately show ?thesis by blast
    qed
  qed
qed

text \<open>On the recording driver: five samples into a window of 4.\<close>

theorem current_pos_invariant_witness:
  "snd (begin_fft (recording silence) (new_AudioFFTBase 4 []) mono16) \<and>
   current_pos (fst (begin_fft (recording silence) (new_AudioFFTBase 4 []) mono16)) = 0 \<and>
   callback_readonly (recording silence) \<and>
   current_pos (fft (recording silence) ((begun 4 mono16)\<lparr>current_pos := 4\<rparr>)) = 0 \<and>
   1 \<le> channels (cfg (begun 4 mono16)) \<and>
   0 \<le> current_pos (begun 4 mono16) \<and> current_pos (begun 4 mono16) < len (begun 4 mono16) \<and>
   (\<exists>r. write_fft (recording silence) (begun 4 mono16) [1, 0, 2, 0, 3, 0, 4, 0, 5, 0] = Some r \<and>
        (\<forall>s' n. r = Inr (s', n) \<longrightarrow> len s' = 4 \<and> 0 \<le> current_pos s' \<and> current_pos s' < len s'))"
proof -
  have bg: "snd (begin_fft (recording silence) (new_AudioFFTBase 4 []) mono16)"
    by (simp add: begin_fft_def new_AudioFFTBase_def isPowerOfTwo_def Let_def
        recording_def recording_driver_def started_def)
  have ro: "callback_readonly (recording silence)"
    by (simp add: callback_readonly_def recording_def)
  have ch: "1 \<le> channels (cfg (begun 4 mono16))"
    by (simp add: begun_def mono16_def)
  have p0: "0 \<le> current_pos (begun 4 mono16)"
    and p1: "current_pos (begun 4 mono16) < len (begun 4 mono16)"
    and l4: "len (begun 4 mono16) = 4"
    by (simp_all add: begun_def)
  note inv = current_pos_invariant [of "recording silence" _ mono16]
  from inv [of "new_AudioFFTBase 4 []"] bg
  have a: "current_pos (fst (begin_fft (recording silence) (new_AudioFFTBase 4 []) mono16)) = 0"
    by blast
  from inv [of "(begun 4 mono16)\<lparr>current_pos := 4\<rparr>"] ro
  have b: "current_pos (fft (recording silence) ((begun 4 mono16)\<lparr>current_pos := 4\<rparr>)) = 0"
    by blast
  from inv [of "begun 4 mono16" "[1, 0, 2, 0, 3, 0, 4, 0, 5, 0]"] ro ch p0 p1
  have "\<exists>r. write_fft (recording silence) (begun 4 mono16) [1, 0, 2, 0, 3, 0, 4, 0, 5, 0] = Some r \<and>
        (\<forall>s' n. r = Inr (s', n) \<longrightarrow>
           len s' = len (begun 4 mono16) \<and> 0 \<le> current_pos s' \<and> current_pos s' < len s')"
    by blast
  then have c: "\<exists>r. write_fft (recording silence) (begun 4 mono16) [1, 0, 2, 0, 3, 0, 4, 0, 5, 0] = Some r \<and>
        (\<forall>s' n. r = Inr (s', n) \<longrightarrow> len s' = 4 \<and> 0 \<le> current_pos s' \<and> current_pos s' < len s')"
    unfolding l4 .
  from bg a ro b ch p0 p1 c show ?thesis by blast
qed

end
